(* ===== verification/Prelude.thy ===== *)
theory Prelude
  imports Main "HOL-Library.Word"
begin

text \<open>
  Shared vocabulary of the development: the machine types of the Rust source, the
  outcome of a fallible call (a value, an error, or a panic), saturating arithmetic,
  little-endian byte images of words, and the collections of rewrite rules that the
  component theories fill.

  The bot is built with the release profile of Cargo.toml, which leaves overflow checks
  off: plain \<open>+\<close>, \<open>-\<close> and \<open>*\<close> on Rust integers wrap, exactly as they do on \<open>'w word\<close>.
\<close>

unbundle bit_operations_syntax

type_synonym u8 = "8 word"
type_synonym u32 = "32 word"
type_synonym u64 = "64 word"
type_synonym u128 = "128 word"
type_synonym usize = "64 word"
type_synonym bytes = "u8 list"

named_theorems outcome_simps "rewriting of bind and guards over fallible outcomes"
named_theorems frame_simps "which state components an operation leaves alone"

subsection \<open>Fallible calls\<close>

text \<open>
  \<open>Ok\<close> and \<open>Err\<close> are Rust's \<open>Result\<close>; \<open>Panic\<close> is a failed \<open>expect\<close> or \<open>unwrap\<close>, which
  under \<open>panic = "abort"\<close> ends the process.
\<close>

datatype ('e, 'a) outcome = Ok 'a | Err 'e | Panic

fun bind_outcome :: "('e, 'a) outcome \<Rightarrow> ('a \<Rightarrow> ('e, 'b) outcome) \<Rightarrow> ('e, 'b) outcome" where
  "bind_outcome (Ok x) f = f x"
| "bind_outcome (Err e) f = Err e"
| "bind_outcome Panic f = Panic"

fun of_option :: "'e \<Rightarrow> 'a option \<Rightarrow> ('e, 'a) outcome" where
  "of_option e (Some x) = Ok x"
| "of_option e None = Err e"

fun is_ok :: "('e, 'a) outcome \<Rightarrow> bool" where
  "is_ok (Ok x) = True"
| "is_ok _ = False"

lemma bind_outcome_eq_Ok [outcome_simps]:
  "bind_outcome r f = Ok y \<longleftrightarrow> (\<exists>x. r = Ok x \<and> f x = Ok y)"
  by (cases r) auto

lemma bind_outcome_eq_Err [outcome_simps]:
  "bind_outcome r f = Err e \<longleftrightarrow> r = Err e \<or> (\<exists>x. r = Ok x \<and> f x = Err e)"
  by (cases r) auto

lemma bind_outcome_eq_Panic [outcome_simps]:
  "bind_outcome r f = Panic \<longleftrightarrow> r = Panic \<or> (\<exists>x. r = Ok x \<and> f x = Panic)"
  by (cases r) auto

lemma of_option_eq_Ok [outcome_simps]: "of_option e r = Ok x \<longleftrightarrow> r = Some x"
  by (cases r) auto

lemma of_option_eq_Err [outcome_simps]: "of_option e r = Err e' \<longleftrightarrow> r = None \<and> e' = e"
  by (cases r) auto

lemma of_option_not_Panic [outcome_simps]: "of_option e r \<noteq> Panic"
  by (cases r) auto

lemma is_ok_iff: "is_ok r \<longleftrightarrow> (\<exists>x. r = Ok x)"
  by (cases r) auto

text \<open>\<open>iter().map(f).collect()\<close> into a \<open>Result\<close>, and a loop that uses \<open>?\<close>: the first
  failure stops it.\<close>

fun traverse :: "('a \<Rightarrow> ('e, 'b) outcome) \<Rightarrow> 'a list \<Rightarrow> ('e, 'b list) outcome" where
  "traverse f [] = Ok []"
| "traverse f (x # xs) =
     bind_outcome (f x) (\<lambda>y. bind_outcome (traverse f xs) (\<lambda>ys. Ok (y # ys)))"

lemma traverse_eq_Ok: "traverse f xs = Ok ys \<longleftrightarrow> list_all2 (\<lambda>x y. f x = Ok y) xs ys"
  by (induction xs arbitrary: ys) (auto simp: outcome_simps list_all2_Cons1)

lemma traverse_length: "traverse f xs = Ok ys \<Longrightarrow> length ys = length xs"
  by (simp add: traverse_eq_Ok list_all2_lengthD)

subsection \<open>Saturating arithmetic\<close>

definition saturating_add :: "'w::len word \<Rightarrow> 'w word \<Rightarrow> 'w word" where
  "saturating_add a b = (if unat a + unat b < 2 ^ LENGTH('w) then a + b else - 1)"

definition saturating_sub :: "'w::len word \<Rightarrow> 'w word \<Rightarrow> 'w word" where
  "saturating_sub a b = (if b \<le> a then a - b else 0)"

lemma unat_minus_one_max: "unat (- 1 :: 'w::len word) = 2 ^ LENGTH('w) - 1"
  by (simp add: unsigned_minus_1_eq_mask mask_eq_exp_minus_1)

lemma unat_saturating_add:
  "unat (saturating_add a b) = min (unat a + unat b) (2 ^ LENGTH('w) - 1)"
  for a b :: "'w::len word"
proof (cases "unat a + unat b < 2 ^ LENGTH('w)")
  case True
  then show ?thesis by (simp add: saturating_add_def unat_word_ariths)
next
  case False
  then show ?thesis by (simp add: saturating_add_def unat_minus_one_max)
qed

lemma unat_saturating_sub: "unat (saturating_sub a b) = unat a - unat b"
  for a b :: "'w::len word"
  by (auto simp: saturating_sub_def unat_sub word_le_nat_alt)

lemma less_saturating_add_imp:
  "saturating_add a b < c \<Longrightarrow> unat a + unat b < unat c" for a b c :: "'w::len word"
proof -
  assume "saturating_add a b < c"
  then have lt: "min (unat a + unat b) (2 ^ LENGTH('w) - 1) < unat c"
    by (simp add: word_less_nat_alt unat_saturating_add)
  have "unat c < 2 ^ LENGTH('w)" by (rule unsigned_less)
  with lt show ?thesis by linarith
qed

subsection \<open>Little-endian images\<close>

definition le_bytes :: "nat \<Rightarrow> 'w::len word \<Rightarrow> bytes" where
  "le_bytes n w = map (\<lambda>i. ucast (drop_bit (8 * i) w)) [0..<n]"

fun of_le_bytes :: "bytes \<Rightarrow> 'w::len word" where
  "of_le_bytes [] = 0"
| "of_le_bytes (b # bs) = ucast b OR push_bit 8 (of_le_bytes bs)"

abbreviation to_le_bytes :: "u64 \<Rightarrow> bytes" where
  "to_le_bytes w \<equiv> le_bytes 8 w"

lemma length_le_bytes [simp]: "length (le_bytes n w) = n"
  by (simp add: le_bytes_def)

lemma bit_of_le_bytes:
  "bit (of_le_bytes bs :: 'w::len word) k \<longleftrightarrow>
     k < LENGTH('w) \<and> k div 8 < length bs \<and> bit (bs ! (k div 8)) (k mod 8)"
proof (induction bs arbitrary: k)
  case Nil
  then show ?case by simp
next
  case (Cons b bs)
  show ?case
  proof (cases "k < 8")
    case True
    then show ?thesis
      by (auto simp: bit_or_iff bit_push_bit_iff bit_ucast_iff)
  next
    case False
    then have k: "k div 8 = Suc ((k - 8) div 8)" "k mod 8 = (k - 8) mod 8"
      by (simp_all add: le_div_geq le_mod_geq)
    from False have "\<not> bit (ucast b :: 'w word) k"
      by (auto simp: bit_ucast_iff dest: bit_imp_le_length)
    with False show ?thesis
      by (auto simp: bit_or_iff bit_push_bit_iff Cons.IH k)
  qed
qed

lemma of_le_bytes_le_bytes:
  assumes "LENGTH('w) = 8 * n"
  shows "of_le_bytes (le_bytes n w) = (w :: 'w::len word)"
proof (rule bit_word_eqI)
  fix k assume "k < LENGTH('w)"
  with assms have "k div 8 < n" by auto
  with \<open>k < LENGTH('w)\<close> show "bit (of_le_bytes (le_bytes n w) :: 'w word) k = bit w k"
    by (simp add: bit_of_le_bytes le_bytes_def bit_ucast_iff bit_drop_bit_eq)
qed

lemma of_to_le_bytes [simp]: "of_le_bytes (to_le_bytes w) = w"
  by (rule of_le_bytes_le_bytes) simp

lemma to_le_bytes_inject [simp]: "to_le_bytes v = to_le_bytes w \<longleftrightarrow> v = w"
  by (metis of_to_le_bytes)

end
