(* ===== verification/HashMaps.thy ===== *)
theory HashMaps
  imports Prelude "HOL-Library.AList"
begin

text \<open>
  The interface of the standard library's \<open>HashMap\<close> (and of \<open>DashMap\<close>) that the bot uses:
  lookup, insertion, removal, the length, and iteration in some order.  The locale
  \<open>hash_map\<close> states the documented contract; client lemmas on bulk loading are proved in
  it once.  The model's maps are association lists without repeated keys, whose list
  order stands for the iteration order, and the interpretation discharges the contract
  for them.
\<close>

locale hash_map =
  fixes get :: "'m \<Rightarrow> 'k \<Rightarrow> 'v option"
    and put :: "'k \<Rightarrow> 'v \<Rightarrow> 'm \<Rightarrow> 'm"
    and del :: "'k \<Rightarrow> 'm \<Rightarrow> 'm"
    and len :: "'m \<Rightarrow> nat"
    and entries :: "'m \<Rightarrow> ('k \<times> 'v) list"
    and ok :: "'m \<Rightarrow> bool"
  assumes get_put: "get (put k v m) k' = (if k' = k then Some v else get m k')"
    and get_del: "ok m \<Longrightarrow> get (del k m) k' = (if k' = k then None else get m k')"
    and get_entries: "ok m \<Longrightarrow> get m k = map_of (entries m) k"
    and distinct_entries: "ok m \<Longrightarrow> distinct (map fst (entries m))"
    and len_entries: "len m = length (entries m)"
    and ok_put: "ok m \<Longrightarrow> ok (put k v m)"
    and ok_del: "ok m \<Longrightarrow> ok (del k m)"
    and len_put: "ok m \<Longrightarrow> len (put k v m) = (if get m k = None then Suc (len m) else len m)"
    and len_del: "ok m \<Longrightarrow> len (del k m) = (if get m k = None then len m else len m - 1)"
begin

lemma ok_fold_put: "ok m \<Longrightarrow> ok (fold (\<lambda>(k, v). put k v) kvs m)"
  by (induction kvs arbitrary: m) (auto intro: ok_put)

lemma get_fold_put:
  "get (fold (\<lambda>(k, v). put k v) kvs m) k =
     (case map_of (rev kvs) k of None \<Rightarrow> get m k | Some v \<Rightarrow> Some v)"
  by (induction kvs arbitrary: m) (auto simp: get_put map_add_def split: option.splits)

lemma get_fold_or_insert:
  "get (fold (\<lambda>(k, v) m. if get m k = None then put k v m else m) kvs m) k =
     (case get m k of None \<Rightarrow> map_of kvs k | Some v \<Rightarrow> Some v)"
  by (induction kvs arbitrary: m) (auto simp: get_put split: option.splits if_splits)

lemma ok_fold_or_insert:
  "ok m \<Longrightarrow> ok (fold (\<lambda>(k, v) m. if get m k = None then put k v m else m) kvs m)"
  by (induction kvs arbitrary: m) (auto simp: ok_put split: if_splits)

lemma len_pos: "ok m \<Longrightarrow> get m k = Some v \<Longrightarrow> 0 < len m"
  by (auto simp: get_entries len_entries dest: map_of_SomeD)

end

subsection \<open>Association lists\<close>

type_synonym ('k, 'v) hmap = "('k \<times> 'v) list"

definition hm_get :: "('k, 'v) hmap \<Rightarrow> 'k \<Rightarrow> 'v option" where
  "hm_get m k = map_of m k"

definition hm_insert :: "'k \<Rightarrow> 'v \<Rightarrow> ('k, 'v) hmap \<Rightarrow> ('k, 'v) hmap" where
  "hm_insert k v m = AList.update k v m"

definition hm_remove :: "'k \<Rightarrow> ('k, 'v) hmap \<Rightarrow> ('k, 'v) hmap" where
  "hm_remove k m = AList.delete k m"

definition hm_contains :: "('k, 'v) hmap \<Rightarrow> 'k \<Rightarrow> bool" where
  "hm_contains m k \<longleftrightarrow> hm_get m k \<noteq> None"

text \<open>\<open>entry(k).or_insert(v)\<close>, and \<open>get_mut(k)\<close> followed by an update in place.\<close>

definition hm_or_insert :: "'k \<Rightarrow> 'v \<Rightarrow> ('k, 'v) hmap \<Rightarrow> ('k, 'v) hmap" where
  "hm_or_insert k v m = (if hm_get m k = None then hm_insert k v m else m)"

definition hm_modify :: "'k \<Rightarrow> ('v \<Rightarrow> 'v) \<Rightarrow> ('k, 'v) hmap \<Rightarrow> ('k, 'v) hmap" where
  "hm_modify k f m = (case hm_get m k of None \<Rightarrow> m | Some v \<Rightarrow> hm_insert k (f v) m)"

definition hm_ok :: "('k, 'v) hmap \<Rightarrow> bool" where
  "hm_ok m \<longleftrightarrow> distinct (map fst m)"

lemma hm_get_Nil [simp]: "hm_get [] k = None"
  by (simp add: hm_get_def)

lemma hm_ok_Nil [simp]: "hm_ok []"
  by (simp add: hm_ok_def)

lemma length_hm_insert:
  "length (hm_insert k v m) = (if hm_get m k = None then Suc (length m) else length m)"
  by (induction m) (auto simp: hm_insert_def hm_get_def)

lemma length_hm_remove:
  "hm_ok m \<Longrightarrow> length (hm_remove k m) = (if hm_get m k = None then length m else length m - 1)"
proof (induction m)
  case Nil
  then show ?case by (simp add: hm_remove_def)
next
  case (Cons p m)
  obtain k' v where p: "p = (k', v)" by (cases p)
  show ?case
  proof (cases "k' = k")
    case True
    with Cons.prems p have "k \<notin> fst ` set m" by (auto simp: hm_ok_def)
    with True p show ?thesis by (simp add: hm_remove_def hm_get_def delete_id)
  next
    case False
    with Cons p show ?thesis
      by (cases m) (auto simp: hm_remove_def hm_get_def hm_ok_def)
  qed
qed

interpretation hm: hash_map hm_get hm_insert hm_remove length "\<lambda>m. m" hm_ok
proof
  fix m :: "('k, 'v) hmap" and k k' :: 'k and v :: 'v
  show "hm_get (hm_insert k v m) k' = (if k' = k then Some v else hm_get m k')"
    by (simp add: hm_get_def hm_insert_def update_conv)
  show "hm_get m k = map_of m k" if "hm_ok m"
    by (simp add: hm_get_def)
  show "length m = length m" by simp
  assume ok: "hm_ok m"
  then show "hm_get (hm_remove k m) k' = (if k' = k then None else hm_get m k')"
    by (simp add: hm_get_def hm_remove_def delete_conv)
  show "distinct (map fst m)" using ok by (simp add: hm_ok_def)
  show "hm_ok (hm_insert k v m)" using ok by (simp add: hm_ok_def hm_insert_def distinct_update)
  show "hm_ok (hm_remove k m)" using ok by (simp add: hm_ok_def hm_remove_def distinct_delete)
  show "length (hm_insert k v m) = (if hm_get m k = None then Suc (length m) else length m)"
    by (rule length_hm_insert)
  show "length (hm_remove k m) = (if hm_get m k = None then length m else length m - 1)"
    using ok by (rule length_hm_remove)
qed

lemmas hm_get_insert [simp] = hm.get_put
lemmas hm_ok_insert [simp, intro] = hm.ok_put
lemmas hm_ok_remove [simp, intro] = hm.ok_del

lemma hm_get_modify [simp]:
  "hm_get (hm_modify k f m) k' = (if k' = k then map_option f (hm_get m k) else hm_get m k')"
  by (auto simp: hm_modify_def split: option.splits)

lemma hm_ok_modify [simp, intro]: "hm_ok m \<Longrightarrow> hm_ok (hm_modify k f m)"
  by (auto simp: hm_modify_def split: option.splits)

lemma length_hm_modify [simp]: "length (hm_modify k f m) = length m"
  by (auto simp: hm_modify_def length_hm_insert split: option.splits)

lemma hm_get_or_insert [simp]:
  "hm_get (hm_or_insert k v m) k' =
     (if k' = k \<and> hm_get m k = None then Some v else hm_get m k')"
  by (auto simp: hm_or_insert_def)

lemma hm_ok_or_insert [simp, intro]: "hm_ok m \<Longrightarrow> hm_ok (hm_or_insert k v m)"
  by (simp add: hm_or_insert_def hm_ok_insert)

lemma hm_get_SomeD: "hm_get m k = Some v \<Longrightarrow> (k, v) \<in> set m"
  by (simp add: hm_get_def map_of_SomeD)

lemma hm_get_iff: "hm_ok m \<Longrightarrow> hm_get m k = Some v \<longleftrightarrow> (k, v) \<in> set m"
  by (simp add: hm_get_def hm_ok_def)

end
