(* ===== verification/BotConfig.thy ===== *)
theory BotConfig
  imports RustStrings HashMaps
begin

text \<open>
  Static configuration: the program registry (\<open>src/src/program_registry.rs\<close>), the
  configuration records with their defaults (\<open>src/src/config.rs\<close>) and the token file
  (\<open>src/src/tokens.rs\<close>).  Floating-point settings keep an abstract type \<open>'f\<close>.
\<close>

subsection \<open>The program registry\<close>

definition PROGRAMS :: "(string \<times> string) list" where
  "PROGRAMS = [
     (''JUP6LkbZbjS1jKKwapdHNy74zcZ3tLUZoi5QNyVTaV4'', ''Jupiter_Aggregator_v6.so''),
     (''cpamdpZCGKUy5JxQXB4dcpGPiikHawvSWAd6mEn1sGG'', ''Meteora_DAMM_v2.so''),
     (''CAMMCzo5YL8w4VFF8KVHrK22GGUsp5VTaW7grrKgrWqK'', ''Raydium_Concentrated_Liquidity.so''),
     (''MNFSTqtC93rEfYHB6hF82sKdZpUDFWkViLByLd1k1Ms'', ''Manifest.so''),
     (''whirLbMiicVdio4qvUfM5KAg6Ct8VwpYzGff3uctyCc'', ''Whirlpools_Program.so''),
     (''BSwp6bEBihVLdqJRKGgzjcGLHkcTuzmSo1TQkHepzH8p'', ''BonkSwap.so''),
     (''fUSioN9YKKSa3CUC2YUc4tPkHJ5Y6XW1yz8y6F7qWz9'', ''Fusion_AMM.so''),
     (''LBUZKhRxPF3XUpBCjp4YzTKgLccjZhTSDM9YuVaPwxo'', ''Meteora_DLMM_Program.so''),
     (''DEXYosS6oEGvk8uCDayvwEZz4qEyDJRf9nFgYCaqPMTm'', ''1Dex_Program.so''),
     (''MERLuDFBMmsHnsBPZw2sDQZHvXFMwp8EdjudcU2HKky'', ''Mercurial_Stable_Swap.so''),
     (''CPMMoo8L3F4NbTegBCKVNunggL7H1ZpdTHKxQB5qKP1C'', ''Raydium_CPMM.so''),
     (''9W959DqEETiGZocYWCQPaJ6sBmUzgfxXfqGeTEdp3aQP'', ''Meteora_Pools_Program.so''),
     (''24Uqj9JCLxUeoC3hGfh5W3s9FM9uCHDS2SG3LYwBpyTi'', ''Invariant_Swap.so''),
     (''Eo7WjKq67rjJQSZxS6z3YkapzY3eMj6Xy8X5EQVn5UaB'', ''PancakeSwap.so''),
     (''HyaB3W9q6XdA5xwpU4XnSZV94htfmbmqJXZcEbRaJutt'', ''Meteora_Vault_Program.so''),
     (''ALPHAQmeA7bjrVuccPsYPiCvsi428SNwte66Srvs4pHA'', ''AlphaQ.so''),
     (''AQU1FRd7papthgdrwPTTq5JacJh8YtwEXaBfKU3bTz45'', ''Aquifer.so''),
     (''HpNfyc2Saw7RKkQd8nEL4khUcuPhQ7WwY1B2qjx8jxFq'', ''Byreal_CLMM.so''),
     (''REALQqNEomY6cQGZJUGwywTBD2UmDT32rZcNnfxQ5N2'', ''REALQq.so''),
     (''TessVdML9pBGgG9yGks7o4HewRaXVAMuoVj4x83GLQH'', ''Tessera_V.so''),
     (''SoLFiHG9TfgtdUXUjWAxi3LtvYuFyDLVhBWxdMZxyCe'', ''SolFi.so''),
     (''SV2EYYJyRz2YhfXwXnhNAevDEui5Q6yrfyo13WtupPF'', ''SolFi_V2.so''),
     (''ZERor4xhbUycZ6gb9ntrhqscUcZmAbQDjEAtCf4hbZY'', ''ZeroFi.so''),
     (''goonuddtQRrWqqn5nFyczVKaie28f3kDkHWkHtURSLE'', ''goofni_v2.so'')]"

definition PMM_PROGRAM_IDS :: "string list" where
  "PMM_PROGRAM_IDS = [
     ''TessVdML9pBGgG9yGks7o4HewRaXVAMuoVj4x83GLQH'',
     ''SoLFiHG9TfgtdUXUjWAxi3LtvYuFyDLVhBWxdMZxyCe'',
     ''SV2EYYJyRz2YhfXwXnhNAevDEui5Q6yrfyo13WtupPF'',
     ''ZERor4xhbUycZ6gb9ntrhqscUcZmAbQDjEAtCf4hbZY'']"

definition FORBIDDEN_DEX_PROGRAM_IDS :: "string list" where
  "FORBIDDEN_DEX_PROGRAM_IDS = []"

definition FORBIDDEN_DEX_LABELS :: "string list" where
  "FORBIDDEN_DEX_LABELS = []"

definition all_program_ids :: "string list" where
  "all_program_ids = map fst PROGRAMS"

subsection \<open>Configuration\<close>

record metis_config =
  mc_url :: string
  mc_binary_key :: string

record 'f trading_config =
  tc_min_amount_sol :: 'f
  tc_max_amount_sol :: 'f
  tc_step_sol :: 'f
  tc_min_profit_lamports :: u64
  tc_base_fee_lamports :: u64
  tc_tokens_file :: string

record 'f jito_config =
  jc_urls :: "string list"
  jc_uuid :: string
  jc_trading_keypair :: string
  jc_tip_min_lamports :: u64
  jc_tip_max_lamports :: u64
  jc_tip_profit_percent :: 'f
  jc_max_bundles_per_second :: u32

record rpc_config =
  rc_url :: string

record yellowstone_grpc_config =
  yc_endpoint :: string
  yc_x_token :: string

record simulation_config =
  sc_enabled :: bool
  sc_so_dir :: string
  sc_dex_dir :: string
  sc_fail_closed :: bool
  sc_workers :: nat

record jito_grpc_config =
  gc_enabled :: bool
  gc_endpoints :: "string list"
  gc_auth_keypair :: string
  gc_max_bundles_per_second :: u32

record performance_config =
  pc_threads :: nat
  pc_quote_timeout_ms :: u64
  pc_cu_limits :: "u32 list"
  pc_max_concurrent_quotes :: nat
  pc_calc_workers :: nat
  pc_queue_max_age_ms :: u64
  pc_bot_cpu_cores :: "nat list"

record template_cache_config =
  save_new :: bool
  serve_route_enabled :: bool
  serve_from_metis :: bool

record 'f config =
  cfg_metis :: metis_config
  cfg_trading :: "'f trading_config"
  cfg_jito :: "'f jito_config"
  cfg_rpc :: rpc_config
  cfg_yellowstone_grpc :: yellowstone_grpc_config
  cfg_performance :: performance_config
  cfg_simulation :: simulation_config
  cfg_jito_grpc :: jito_grpc_config
  cfg_template_cache :: template_cache_config

definition default_so_dir :: string where
  "default_so_dir = ''/home/soluser/m/so''"

definition default_dex_dir :: string where
  "default_dex_dir = ''vendor/litesvm/dex''"

definition default_true :: bool where
  "default_true = True"

definition default_workers :: nat where
  "default_workers = 8"

definition default_simulation_config :: simulation_config where
  "default_simulation_config =
     \<lparr>sc_enabled = False, sc_so_dir = default_so_dir, sc_dex_dir = default_dex_dir,
      sc_fail_closed = True, sc_workers = default_workers\<rparr>"

definition default_jito_grpc_endpoints :: "string list" where
  "default_jito_grpc_endpoints =
     map (\<lambda>region. ''https://'' @ region @ ''.mainnet.block-engine.jito.wtf'')
       [''amsterdam'', ''dublin'', ''frankfurt'', ''london'', ''ny'', ''slc'', ''singapore'', ''tokyo'']"

definition default_grpc_rate :: u32 where
  "default_grpc_rate = 5"

definition default_jito_grpc_config :: jito_grpc_config where
  "default_jito_grpc_config =
     \<lparr>gc_enabled = False, gc_endpoints = default_jito_grpc_endpoints, gc_auth_keypair = [],
      gc_max_bundles_per_second = default_grpc_rate\<rparr>"

definition default_max_concurrent_quotes :: nat where
  "default_max_concurrent_quotes = 512"

definition default_calc_workers :: nat where
  "default_calc_workers = 6"

definition default_queue_max_age_ms :: u64 where
  "default_queue_max_age_ms = 5000"

definition default_true_tc :: bool where
  "default_true_tc = True"

definition default_template_cache_config :: template_cache_config where
  "default_template_cache_config =
     \<lparr>save_new = False, serve_route_enabled = False, serve_from_metis = True\<rparr>"

text \<open>\<open>Config::load\<close>: the file's text through the TOML reader, which is a parameter.\<close>

datatype load_error = FileError | ParseError | EmptyTokens

definition load_config ::
  "(string \<Rightarrow> string option) \<Rightarrow> (string \<Rightarrow> 'f config option) \<Rightarrow> string \<Rightarrow> (load_error, 'f config) outcome" where
  "load_config read_file parse_toml path =
     bind_outcome (of_option FileError (read_file path))
       (\<lambda>content. of_option ParseError (parse_toml content))"

subsection \<open>The token file\<close>

definition WSOL_MINT :: string where
  "WSOL_MINT = ''So11111111111111111111111111111111111111112''"

definition token_of_line :: "string \<Rightarrow> string" where
  "token_of_line l = trim (takeWhile (\<lambda>c. c \<noteq> CHR ''#'') l)"

definition load_tokens ::
  "(string \<Rightarrow> string option) \<Rightarrow> string \<Rightarrow> (load_error, string list) outcome" where
  "load_tokens read_file path =
     bind_outcome (of_option FileError (read_file path)) (\<lambda>content.
       let tokens = filter (\<lambda>l. l \<noteq> []) (map token_of_line (str_lines content))
       in if tokens = [] then Err EmptyTokens else Ok tokens)"

subsection \<open>Properties\<close>

text \<open>Loading succeeds with exactly the trimmed, comment-free, non-empty lines in file order;
  every token it returns is non-empty and free of comment signs and surrounding blanks.\<close>

theorem load_tokens_clean:
  assumes "load_tokens read_file path = Ok tokens"
  shows "tokens \<noteq> [] \<and>
    (\<exists>content. read_file path = Some content \<and>
       tokens = filter (\<lambda>l. l \<noteq> []) (map token_of_line (str_lines content))) \<and>
    (\<forall>t \<in> set tokens. t \<noteq> [] \<and> CHR ''#'' \<notin> set t \<and>
       \<not> is_whitespace (hd t) \<and> \<not> is_whitespace (last t))"
proof -
  obtain content where content: "read_file path = Some content"
    and tokens: "tokens = filter (\<lambda>l. l \<noteq> []) (map token_of_line (str_lines content))"
    and ne: "tokens \<noteq> []"
    using assms by (auto simp: load_tokens_def outcome_simps Let_def split: if_splits)
  have "t \<noteq> [] \<and> CHR ''#'' \<notin> set t \<and> \<not> is_whitespace (hd t) \<and> \<not> is_whitespace (last t)"
    if "t \<in> set tokens" for t
  proof -
    from that tokens obtain l where t: "t = token_of_line l" "t \<noteq> []" by auto
    then have "set t \<subseteq> set (takeWhile (\<lambda>c. c \<noteq> CHR ''#'') l)"
      by (simp add: token_of_line_def set_trim)
    then have "CHR ''#'' \<notin> set t" by (auto dest: set_takeWhileD)
    with t trim_hd trim_last show ?thesis by (simp add: token_of_line_def)
  qed
  with content tokens ne show ?thesis by blast
qed

theorem load_tokens_clean_witness:
  "\<exists>tokens. load_tokens (\<lambda>_. Some ''#x\<newline> Ab #'') ''f'' = Ok tokens \<and>
     (\<forall>t \<in> set tokens. t \<noteq> [] \<and> CHR ''#'' \<notin> set t)"
proof -
  have "load_tokens (\<lambda>_. Some ''#x\<newline> Ab #'') ''f'' = Ok [''Ab'']"
    by (simp add: load_tokens_def token_of_line_def str_lines_def trim_def trim_start_def strip_cr_def is_whitespace_def Let_def)
  from this load_tokens_clean [OF this] show ?thesis by blast
qed

text \<open>The registry has one binary per program, and every proprietary market maker that the
  scanner flags is a registered program.\<close>

theorem registry_consistent:
  "distinct all_program_ids \<and> set PMM_PROGRAM_IDS \<subseteq> set all_program_ids \<and>
   distinct (map snd PROGRAMS)"
  by (simp add: all_program_ids_def PROGRAMS_def PMM_PROGRAM_IDS_def)

end
