(* ===== verification/Json.thy ===== *)
theory Json
  imports HashMaps RustStrings
begin

text \<open>
  JSON values as the bot sees them through \<open>serde_json::Value\<close>: the constructors the code
  matches on, and the accessors \<open>as_array\<close>, \<open>as_object\<close>, \<open>as_str\<close> and \<open>get\<close>.  A number is
  kept as the text \<open>Number::to_string\<close> prints for it; an object is the list of its
  entries, in the order \<open>keys()\<close> and \<open>values()\<close> yield them.
\<close>

datatype json =
    JNull
  | JBool bool
  | JNumber string
  | JString string
  | JArray "json list"
  | JObject "(string \<times> json) list"

type_synonym json_map = "(string \<times> json) list"

fun as_array :: "json \<Rightarrow> json list option" where
  "as_array (JArray xs) = Some xs"
| "as_array _ = None"

fun as_object :: "json \<Rightarrow> json_map option" where
  "as_object (JObject kvs) = Some kvs"
| "as_object _ = None"

fun as_str :: "json \<Rightarrow> string option" where
  "as_str (JString s) = Some s"
| "as_str _ = None"

fun jget :: "json \<Rightarrow> string \<Rightarrow> json option" where
  "jget (JObject kvs) k = map_of kvs k"
| "jget _ k = None"

definition get_str :: "json_map \<Rightarrow> string \<Rightarrow> string option" where
  "get_str si k = Option.bind (map_of si k) as_str"

text \<open>\<open>hop.get("swapInfo").and_then(as_object)\<close>.\<close>

definition swap_info :: "json \<Rightarrow> json_map option" where
  "swap_info hop = Option.bind (jget hop ''swapInfo'') as_object"

text \<open>The hops of a plan: none when it is not an array.\<close>

definition plan_hops :: "json \<Rightarrow> json list" where
  "plan_hops plan = (case as_array plan of None \<Rightarrow> [] | Some hops \<Rightarrow> hops)"

lemma plan_hops_JArray [simp]: "plan_hops (JArray hops) = hops"
  by (simp add: plan_hops_def)

text \<open>A JSON object of the parser has no repeated key.\<close>

definition wf_plan :: "json \<Rightarrow> bool" where
  "wf_plan plan \<longleftrightarrow>
     (\<forall>hop \<in> set (plan_hops plan). \<forall>si. swap_info hop = Some si \<longrightarrow> distinct (map fst si))"

lemma as_array_eq_Some: "as_array v = Some xs \<longleftrightarrow> v = JArray xs"
  by (cases v) auto

end
