(* ===== verification/HopKeys.thy ===== *)
theory HopKeys
  imports Json
begin

text \<open>
  Hop identities of \<open>src/src/template_cache.rs\<close>: the DEX kind read off a label, the
  per-DEX direction, the amount-independent key of one hop, the text form of that key
  (\<open>template_id\<close>) and the text form of a pair of hops that indexes routes.
\<close>

datatype dex_kind =
    Whirlpool | WhirlpoolSwapV2 | RaydiumClmm | RaydiumV2 | MeteoraDlmm | MeteoraPools
  | AlphaQ | Aquifer | AldrinV2 | Other

definition from_label :: "string \<Rightarrow> dex_kind" where
  "from_label label =
     (let l = to_lowercase label in
      if str_contains l ''whirlpool'' then
        (if str_contains l ''v2'' \<or> str_contains l ''swap_v2'' \<or> str_contains l ''swapv2''
         then WhirlpoolSwapV2 else Whirlpool)
      else if str_contains l ''raydium'' \<and> str_contains l ''clmm'' then RaydiumClmm
      else if str_contains l ''raydium'' then RaydiumV2
      else if str_contains l ''meteora'' \<and> str_contains l ''dlmm'' then MeteoraDlmm
      else if str_contains l ''meteora'' then MeteoraPools
      else if str_contains l ''alphaq'' \<or> str_contains l ''alpha_q'' then AlphaQ
      else if str_contains l ''aquifer'' then Aquifer
      else if str_contains l ''aldrin'' then AldrinV2
      else Other)"

fun file_stem :: "dex_kind \<Rightarrow> string" where
  "file_stem Whirlpool = ''whirlpool''"
| "file_stem WhirlpoolSwapV2 = ''whirlpool_swap_v2''"
| "file_stem RaydiumClmm = ''raydium_clmm''"
| "file_stem RaydiumV2 = ''raydium_v2''"
| "file_stem MeteoraDlmm = ''meteora_dlmm''"
| "file_stem MeteoraPools = ''meteora_pools''"
| "file_stem AlphaQ = ''alphaq''"
| "file_stem Aquifer = ''aquifer''"
| "file_stem AldrinV2 = ''aldrin_v2''"
| "file_stem Other = ''other''"

datatype direction_params = DirNone | AToB bool | SideBid | SideAsk

text \<open>The first of the candidate fields that holds a boolean.\<close>

fun first_bool :: "json_map \<Rightarrow> string list \<Rightarrow> direction_params" where
  "first_bool si [] = DirNone"
| "first_bool si (f # fs) =
     (case map_of si f of Some (JBool b) \<Rightarrow> AToB b | _ \<Rightarrow> first_bool si fs)"

definition extract_direction :: "dex_kind \<Rightarrow> json_map \<Rightarrow> direction_params" where
  "extract_direction dex si =
     (if dex = Whirlpool \<or> dex = WhirlpoolSwapV2 \<or> dex = AlphaQ then
        first_bool si [''a_to_b'', ''aToB'', ''atob'', ''a2b'']
      else if dex = AldrinV2 then
        (case map_of si ''side'' of
           Some (JString s) \<Rightarrow>
             (if to_lowercase s = ''bid'' then SideBid
              else if to_lowercase s = ''ask'' then SideAsk
              else DirNone)
         | _ \<Rightarrow> DirNone)
      else DirNone)"

record hop_key =
  hk_dex :: dex_kind
  hk_pool_or_amm_key :: string
  hk_input_mint :: string
  hk_output_mint :: string
  hk_direction :: direction_params
  hk_remaining_accounts_hash :: u64

definition from_swap_info :: "json_map \<Rightarrow> hop_key option" where
  "from_swap_info si =
     (case get_str si ''ammKey'' of None \<Rightarrow> None | Some pool \<Rightarrow>
      case get_str si ''inputMint'' of None \<Rightarrow> None | Some input \<Rightarrow>
      case get_str si ''outputMint'' of None \<Rightarrow> None | Some outp \<Rightarrow>
        let label = (case get_str si ''label'' of None \<Rightarrow> [] | Some l \<Rightarrow> l);
            dex = from_label label;
            direction = extract_direction dex si
        in Some \<lparr>hk_dex = dex, hk_pool_or_amm_key = pool, hk_input_mint = input,
                 hk_output_mint = outp, hk_direction = direction,
                 hk_remaining_accounts_hash = 0\<rparr>)"

fun direction_text :: "direction_params \<Rightarrow> string" where
  "direction_text DirNone = ''none''"
| "direction_text (AToB b) = ''a2b:'' @ (if b then ''true'' else ''false'')"
| "direction_text SideBid = ''bid''"
| "direction_text SideAsk = ''ask''"

definition template_id :: "hop_key \<Rightarrow> string" where
  "template_id k =
     hk_pool_or_amm_key k @ '':'' @ hk_input_mint k @ '':'' @ hk_output_mint k @ '':'' @
     direction_text (hk_direction k) @ '':'' @ show_word (hk_remaining_accounts_hash k)"

text \<open>\<open>hop.get("swapInfo").and_then(as_object).and_then(HopKey::from_swap_info)\<close>, and the
  index key of a plan of exactly two hops, absent when a hop has no key.\<close>

definition hop_key_of :: "json \<Rightarrow> hop_key option" where
  "hop_key_of hop = Option.bind (swap_info hop) from_swap_info"

definition pair_key :: "json \<Rightarrow> string option" where
  "pair_key route_plan =
     (case as_array route_plan of
        Some [h0, h1] \<Rightarrow>
          (case (map_option template_id (hop_key_of h0), map_option template_id (hop_key_of h1)) of
             (Some id0, Some id1) \<Rightarrow> Some (id0 @ ''|'' @ id1)
           | _ \<Rightarrow> None)
      | _ \<Rightarrow> None)"

subsection \<open>Reading the text forms back\<close>

lemma append_sep_inject:
  assumes "xs @ c # ys = xs' @ c # ys'" and "c \<notin> set xs" and "c \<notin> set xs'"
  shows "xs = xs' \<and> ys = ys'"
  using assms
proof (induction xs arbitrary: xs')
  case Nil
  then show ?case by (cases xs') auto
next
  case (Cons x xs)
  then show ?case by (cases xs') auto
qed

lemma append_sep_inject_right:
  assumes "xs @ c # ys = xs' @ c # ys'" and "c \<notin> set ys" and "c \<notin> set ys'"
  shows "xs = xs' \<and> ys = ys'"
proof -
  have "rev ys @ c # rev xs = rev ys' @ c # rev xs'"
    using arg_cong [OF assms(1), of rev] by simp
  from append_sep_inject [OF this] assms(2,3) show ?thesis by simp
qed

lemma direction_text_inject: "direction_text d = direction_text d' \<Longrightarrow> d = d'"
  by (cases d; cases d') (auto split: if_splits)

text \<open>Addresses are base58, so they hold no separator.\<close>

definition plain_text :: "string \<Rightarrow> bool" where
  "plain_text s \<longleftrightarrow> CHR '':'' \<notin> set s \<and> CHR ''|'' \<notin> set s"

definition plain_key :: "hop_key \<Rightarrow> bool" where
  "plain_key k \<longleftrightarrow> plain_text (hk_pool_or_amm_key k) \<and> plain_text (hk_input_mint k) \<and>
     plain_text (hk_output_mint k)"

lemma colon_not_in_show: "CHR '':'' \<notin> set (show_word w)"
  unfolding show_word_def by (rule show_nat_ne) simp

lemma bar_not_in_show: "CHR ''|'' \<notin> set (show_word w)"
  unfolding show_word_def by (rule show_nat_ne) simp

lemma bar_not_in_direction: "CHR ''|'' \<notin> set (direction_text d)"
  by (cases d) auto

lemma bar_not_in_template_id: "plain_key k \<Longrightarrow> CHR ''|'' \<notin> set (template_id k)"
  by (auto simp: template_id_def plain_key_def plain_text_def bar_not_in_show bar_not_in_direction)

lemma template_id_eq:
  assumes "template_id k = template_id k'" and "plain_key k" and "plain_key k'"
  shows "k' = k\<lparr>hk_dex := hk_dex k'\<rparr>"
proof -
  let ?rest = "\<lambda>k. direction_text (hk_direction k) @ CHR '':'' # show_word (hk_remaining_accounts_hash k)"
  from assms have pool: "hk_pool_or_amm_key k = hk_pool_or_amm_key k'"
    and r1: "hk_input_mint k @ CHR '':'' # hk_output_mint k @ CHR '':'' # ?rest k =
      hk_input_mint k' @ CHR '':'' # hk_output_mint k' @ CHR '':'' # ?rest k'"
    using append_sep_inject [of "hk_pool_or_amm_key k" "CHR '':''" _ "hk_pool_or_amm_key k'"]
    by (auto simp: template_id_def plain_key_def plain_text_def)
  from r1 assms have input: "hk_input_mint k = hk_input_mint k'"
    and r2: "hk_output_mint k @ CHR '':'' # ?rest k = hk_output_mint k' @ CHR '':'' # ?rest k'"
    using append_sep_inject [OF r1] by (auto simp: plain_key_def plain_text_def)
  from r2 assms have outp: "hk_output_mint k = hk_output_mint k'" and r3: "?rest k = ?rest k'"
    using append_sep_inject [OF r2] by (auto simp: plain_key_def plain_text_def)
  from append_sep_inject_right [OF r3 colon_not_in_show colon_not_in_show]
  have "hk_direction k = hk_direction k'"
    and "hk_remaining_accounts_hash k = hk_remaining_accounts_hash k'"
    by (auto dest: direction_text_inject)
  with pool input outp show ?thesis by (cases k, cases k') simp
qed

text \<open>A concrete hop, for the witnesses.\<close>

definition sample_hop :: "string \<Rightarrow> json" where
  "sample_hop pool = JObject [(''swapInfo'', JObject [(''ammKey'', JString pool),
     (''inputMint'', JString ''A''), (''outputMint'', JString ''B''),
     (''label'', JString ''Whirlpool''), (''aToB'', JBool True)])]"

definition sample_key :: "string \<Rightarrow> hop_key" where
  "sample_key pool = \<lparr>hk_dex = Whirlpool, hk_pool_or_amm_key = pool, hk_input_mint = ''A'',
     hk_output_mint = ''B'', hk_direction = AToB True, hk_remaining_accounts_hash = 0\<rparr>"

lemma hop_key_of_sample: "hop_key_of (sample_hop pool) = Some (sample_key pool)"
proof -
  have "from_label ''Whirlpool'' = Whirlpool" by code_simp
  then show ?thesis
    by (simp add: hop_key_of_def sample_hop_def swap_info_def from_swap_info_def get_str_def
        extract_direction_def sample_key_def)
qed

subsection \<open>Properties\<close>

text \<open>\<open>template_id\<close> loses nothing but the DEX: two hop keys of base58 addresses with the
  same text agree in pool, mints, direction and accounts hash, so within one DEX file
  (where the DEX is fixed) the text is a unique row key.\<close>

theorem template_id_injective:
  assumes "plain_key k" and "plain_key k'" and "hk_dex k = hk_dex k'"
    and "template_id k = template_id k'"
  shows "k = k'"
  using template_id_eq [OF assms(4,1,2)] assms(3) by (cases k, cases k') simp

theorem template_id_injective_witness:
  "the (hop_key_of (sample_hop ''P'')) = sample_key ''P''"
  by (rule template_id_injective)
    (simp_all add: hop_key_of_sample plain_key_def plain_text_def sample_key_def)

text \<open>C36: the index key of a two-hop plan determines both hops up to their DEX kind, so a
  Tier-2 lookup never confuses two different pool pairs, orders or directions.\<close>

theorem pair_key_identifies_hops:
  assumes "pair_key (JArray [h0, h1]) = Some s" and "pair_key (JArray [g0, g1]) = Some s"
    and "hop_key_of h0 = Some k0" and "hop_key_of h1 = Some k1"
    and "hop_key_of g0 = Some l0" and "hop_key_of g1 = Some l1"
    and "plain_key k0" and "plain_key k1" and "plain_key l0" and "plain_key l1"
  shows "l0 = k0\<lparr>hk_dex := hk_dex l0\<rparr> \<and> l1 = k1\<lparr>hk_dex := hk_dex l1\<rparr>"
proof -
  from assms have "template_id k0 @ CHR ''|'' # template_id k1 =
      template_id l0 @ CHR ''|'' # template_id l1"
    by (simp add: pair_key_def)
  then have "template_id k0 = template_id l0 \<and> template_id k1 = template_id l1"
    by (rule append_sep_inject) (use assms in \<open>auto simp: bar_not_in_template_id\<close>)
  then show ?thesis using assms template_id_eq by blast
qed

theorem pair_key_identifies_hops_witness:
  "sample_key ''P'' = (sample_key ''P'')\<lparr>hk_dex := Whirlpool\<rparr>"
  using pair_key_identifies_hops [of "sample_hop ''P''" "sample_hop ''Q''" _
      "sample_hop ''P''" "sample_hop ''Q''", OF _ _ hop_key_of_sample hop_key_of_sample
      hop_key_of_sample hop_key_of_sample]
  by (simp add: pair_key_def hop_key_of_sample plain_key_def plain_text_def sample_key_def)

text \<open>every DEX kind has its own file, and reading a file stem as a label gives the
  kind back.\<close>

theorem from_label_file_stem: "from_label (file_stem d) = d"
  by (cases d) (simp only: file_stem.simps, code_simp)+

end
