(* ===== verification/MetisClient.thy ===== *)
theory MetisClient
  imports Json
begin

text \<open>
  \<open>src/src/metis.rs\<close>: the types exchanged with the routing engine, the request texts, the
  classification of its replies, and \<open>merge_quotes\<close>, which turns the two legs of a round
  trip into one circular quote.  The HTTP client and the JSON (de)serialisers are
  parameters: a reply is a status with a body, or no reply at all.
\<close>

record quote_response =
  q_input_mint :: string
  q_in_amount :: string
  q_output_mint :: string
  q_out_amount :: string
  q_other_amount_threshold :: string
  q_swap_mode :: string
  q_price_impact_pct :: string
  q_route_plan :: json
  q_context_slot :: "u64 option"
  q_instruction_version :: "string option"
  q_extra :: json_map

record account_meta =
  am_pubkey :: string
  am_is_signer :: bool
  am_is_writable :: bool

record instruction_data =
  ix_program_id :: string
  ix_accounts :: "account_meta list"
  ix_data :: string

record swap_instructions_response =
  compute_budget_instructions :: "instruction_data list"
  setup_instructions :: "instruction_data list"
  swap_instruction :: instruction_data
  cleanup_instruction :: "instruction_data option"
  address_lookup_table_addresses :: "string list"

record swap_instructions_request =
  user_public_key :: string
  quote_value :: json
  wrap_and_unwrap_sol :: bool
  use_shared_accounts :: bool
  dynamic_compute_unit_limit :: bool
  skip_user_accounts_rpc_calls :: bool
  as_legacy_transaction :: bool

datatype swap_ix_error = Timeout | Http nat | Network | Parse

datatype http_reply = NoReply bool | Reply nat string

definition is_success :: "nat \<Rightarrow> bool" where
  "is_success status \<longleftrightarrow> 200 \<le> status \<and> status < 300"

subsection \<open>Requests\<close>

definition metis_base_url :: "string \<Rightarrow> string" where
  "metis_base_url url = trim_end_matches (CHR ''/'') url"

definition quote_url :: "string \<Rightarrow> string \<Rightarrow> string \<Rightarrow> u64 \<Rightarrow> bool \<Rightarrow> string" where
  "quote_url base input_mint output_mint amount only_direct =
     base @ ''/quote?inputMint='' @ input_mint @ ''&outputMint='' @ output_mint @
     ''&amount='' @ show_word amount @
     ''&slippageBps=0'' @ ''&maxAccounts=50'' @ ''&swapMode=ExactIn'' @
     ''&forJitoBundle=true'' @ ''&instructionVersion=V2'' @
     (if only_direct then ''&onlyDirectRoutes=true'' else ''&restrictIntermediateTokens=true'')"

datatype quote_error = RequestFailed | BadStatus nat string | BadBody

definition get_quote ::
  "(string \<Rightarrow> http_reply) \<Rightarrow> (string \<Rightarrow> quote_response option) \<Rightarrow> string \<Rightarrow>
   string \<Rightarrow> string \<Rightarrow> u64 \<Rightarrow> bool \<Rightarrow> (quote_error, quote_response) outcome" where
  "get_quote http_get parse_quote base input_mint output_mint amount only_direct =
     (case http_get (quote_url base input_mint output_mint amount only_direct) of
        NoReply _ \<Rightarrow> Err RequestFailed
      | Reply status body \<Rightarrow>
          if \<not> is_success status then Err (BadStatus status body)
          else of_option BadBody (parse_quote body))"

definition swap_request :: "string \<Rightarrow> json \<Rightarrow> swap_instructions_request" where
  "swap_request user_pubkey quote =
     \<lparr>user_public_key = user_pubkey, quote_value = quote, wrap_and_unwrap_sol = False,
      use_shared_accounts = False, dynamic_compute_unit_limit = False,
      skip_user_accounts_rpc_calls = True, as_legacy_transaction = False\<rparr>"

definition get_swap_instructions ::
  "(quote_response \<Rightarrow> json option) \<Rightarrow> (string \<Rightarrow> swap_instructions_request \<Rightarrow> http_reply) \<Rightarrow>
   (string \<Rightarrow> swap_instructions_response option) \<Rightarrow> string \<Rightarrow> string \<Rightarrow> quote_response \<Rightarrow>
   (swap_ix_error, swap_instructions_response) outcome" where
  "get_swap_instructions to_value http_post parse_swap base user_pubkey quote =
     (case to_value quote of
        None \<Rightarrow> Err Parse
      | Some quote_json \<Rightarrow>
          (case http_post (base @ ''/swap-instructions'') (swap_request user_pubkey quote_json) of
             NoReply is_timeout \<Rightarrow> Err (if is_timeout then Timeout else Network)
           | Reply status body \<Rightarrow>
               if \<not> is_success status then Err (Http status)
               else of_option Parse (parse_swap body)))"

subsection \<open>Merging the two legs\<close>

datatype merge_error = Quote1NotArray | Quote2NotArray

definition merge_quotes ::
  "quote_response \<Rightarrow> quote_response \<Rightarrow> u64 \<Rightarrow> (merge_error, quote_response) outcome" where
  "merge_quotes quote1 quote2 min_acceptable_out =
     bind_outcome (of_option Quote1NotArray (as_array (q_route_plan quote1))) (\<lambda>route_plan1.
     bind_outcome (of_option Quote2NotArray (as_array (q_route_plan quote2))) (\<lambda>route_plan2.
       Ok \<lparr>q_input_mint = q_input_mint quote1,
           q_in_amount = q_in_amount quote1,
           q_output_mint = q_output_mint quote2,
           q_out_amount = show_word min_acceptable_out,
           q_other_amount_threshold = show_word min_acceptable_out,
           q_swap_mode = q_swap_mode quote1,
           q_price_impact_pct = ''0'',
           q_route_plan = JArray (route_plan1 @ route_plan2),
           q_context_slot = q_context_slot quote2,
           q_instruction_version = q_instruction_version quote1,
           q_extra = q_extra quote1\<rparr>))"

lemma merge_quotes_Ok:
  "merge_quotes q1 q2 m = Ok q \<Longrightarrow>
     \<exists>p1 p2. q_route_plan q1 = JArray p1 \<and> q_route_plan q2 = JArray p2 \<and>
       q_route_plan q = JArray (p1 @ p2)"
  by (auto simp: merge_quotes_def outcome_simps as_array_eq_Some)

lemma merge_quotes_not_Panic: "merge_quotes q1 q2 m \<noteq> Panic"
  by (simp add: merge_quotes_def outcome_simps)


definition sample_quote :: "string \<Rightarrow> string \<Rightarrow> string \<Rightarrow> json list \<Rightarrow> quote_response" where
  "sample_quote input outp out_amount hops =
     \<lparr>q_input_mint = input, q_in_amount = ''100'', q_output_mint = outp,
      q_out_amount = out_amount, q_other_amount_threshold = out_amount,
      q_swap_mode = ''ExactIn'', q_price_impact_pct = ''0'', q_route_plan = JArray hops,
      q_context_slot = Some 5, q_instruction_version = Some ''V2'', q_extra = []\<rparr>"


text \<open>merging fails exactly when a leg's plan is not an array, and blames the first such
  leg.\<close>

theorem merge_quotes_errors:
  "merge_quotes q1 q2 m = Err e \<longleftrightarrow>
     (as_array (q_route_plan q1) = None \<and> e = Quote1NotArray) \<or>
     (as_array (q_route_plan q1) \<noteq> None \<and> as_array (q_route_plan q2) = None \<and> e = Quote2NotArray)"
  by (auto simp: merge_quotes_def outcome_simps)

text \<open>The query asks for restricted intermediate tokens on every free route.\<close>

lemma quote_url_free_restricted:
  "suffix ''&restrictIntermediateTokens=true'' (quote_url base i p a False)"
  by (simp add: quote_url_def suffix_def)

end
