(* ===== verification/AmountPatch.thy ===== *)
theory AmountPatch
  imports MetisClient
begin

text \<open>
  Amount patching of \<open>src/src/template_cache.rs\<close>: \<open>discover_offsets\<close> locates the two
  amounts in the bytes of a swap instruction, \<open>patch_amounts_b64\<close> rewrites them, and
  \<open>serve_route\<close> answers a request from a stored template.  The base64 codec of the
  third-party crate is a pair of parameters \<open>enc\<close>, \<open>dec\<close>; the lemmas that need it assume
  that decoding inverts encoding.
\<close>

type_synonym encoder = "bytes \<Rightarrow> string"
type_synonym decoder = "string \<Rightarrow> bytes option"

definition slice8 :: "bytes \<Rightarrow> nat \<Rightarrow> bytes" where
  "slice8 data p = take 8 (drop p data)"

text \<open>One pass of the search.  The outer \<open>None\<close> is the early return on a second match.\<close>

fun scan_unique :: "(nat \<Rightarrow> bool) \<Rightarrow> nat list \<Rightarrow> nat option \<Rightarrow> nat \<Rightarrow> nat option option" where
  "scan_unique hit [] found count = Some found"
| "scan_unique hit (p # ps) found count =
     (if hit p then
        (if count + 1 > 1 then None else scan_unique hit ps (Some p) (count + 1))
      else scan_unique hit ps found count)"

definition discover_offsets :: "bytes \<Rightarrow> u64 \<Rightarrow> u64 \<Rightarrow> (nat \<times> nat) option" where
  "discover_offsets data in_amount quoted_out =
     (let in_le = to_le_bytes in_amount; out_le = to_le_bytes quoted_out in
      if length data < 16 then None
      else
        case scan_unique (\<lambda>p. slice8 data p = in_le \<and> slice8 data (p + 8) = out_le)
               [0..<length data - 16 + 1] None 0 of
          None \<Rightarrow> None
        | Some (Some p) \<Rightarrow> Some (p, p + 8)
        | Some None \<Rightarrow>
            (case scan_unique (\<lambda>p. slice8 data p = in_le) [0..<length data - 16 + 1] None 0 of
               Some (Some p) \<Rightarrow> Some (p, p + 8)
             | _ \<Rightarrow> None))"

text \<open>\<open>copy_from_slice\<close> at an offset.\<close>

definition put_bytes :: "nat \<Rightarrow> bytes \<Rightarrow> bytes \<Rightarrow> bytes" where
  "put_bytes off bs data = take off data @ bs @ drop (off + length bs) data"

text \<open>The bounds check adds 8 in \<open>usize\<close>, which wraps; the slice that follows does not.
  \<open>Err ()\<close> is the code's \<open>None\<close>.\<close>

definition patch_amounts_b64 ::
  "encoder \<Rightarrow> decoder \<Rightarrow> string \<Rightarrow> nat \<Rightarrow> nat \<Rightarrow> u64 \<Rightarrow> u64 \<Rightarrow> (unit, string) outcome" where
  "patch_amounts_b64 enc dec data_b64 in_off out_off new_in new_out =
     (case dec data_b64 of
        None \<Rightarrow> Err ()
      | Some data \<Rightarrow>
          if (in_off + 8) mod 2 ^ 64 > length data \<or> (out_off + 8) mod 2 ^ 64 > length data
          then Err ()
          else if in_off + 8 > length data \<or> out_off + 8 > length data then Panic
          else Ok (enc (put_bytes out_off (to_le_bytes new_out)
                          (put_bytes in_off (to_le_bytes new_in) data))))"

record route_template =
  rt_route_signature :: u128
  rt_swap_ixs :: swap_instructions_response
  rt_template_in_amount :: u64
  rt_template_quoted_out :: u64
  rt_in_amount_offset :: "nat option"
  rt_quoted_out_offset :: "nat option"
  rt_amount_variants :: "(u64, swap_instructions_response) hmap"
  rt_seen_count :: u64
  rt_hit_count :: u64

definition with_data :: "swap_instructions_response \<Rightarrow> string \<Rightarrow> swap_instructions_response" where
  "with_data r d = r\<lparr>swap_instruction := (swap_instruction r)\<lparr>ix_data := d\<rparr>\<rparr>"

text \<open>The requested output is ignored: the new one keeps the template's margin.\<close>

definition serve_route ::
  "encoder \<Rightarrow> decoder \<Rightarrow> route_template \<Rightarrow> u64 \<Rightarrow> u64 \<Rightarrow>
   (unit, swap_instructions_response) outcome" where
  "serve_route enc dec tmpl new_in new_out_ignored =
     (case hm_get (rt_amount_variants tmpl) new_in of
        Some v \<Rightarrow> Ok v
      | None \<Rightarrow>
          bind_outcome (of_option () (rt_in_amount_offset tmpl)) (\<lambda>in_off.
          bind_outcome (of_option () (rt_quoted_out_offset tmpl)) (\<lambda>out_off.
            let new_out = new_in + (rt_template_quoted_out tmpl - rt_template_in_amount tmpl) in
            bind_outcome
              (patch_amounts_b64 enc dec (ix_data (swap_instruction (rt_swap_ixs tmpl)))
                 in_off out_off new_in new_out)
              (\<lambda>new_data. Ok (with_data (rt_swap_ixs tmpl) new_data)))))"

subsection \<open>The search is exact\<close>

lemma scan_unique_after_hit:
  "scan_unique hit ps (Some p) (Suc 0) =
     (if filter hit ps = [] then Some (Some p) else None)"
  by (induction ps) auto

lemma scan_unique_filter:
  "scan_unique hit ps None 0 =
     (case filter hit ps of [] \<Rightarrow> Some None | [p] \<Rightarrow> Some (Some p) | _ \<Rightarrow> None)"
  by (induction ps) (auto simp: scan_unique_after_hit split: list.splits)

lemma filter_singleton_iff:
  assumes "distinct xs"
  shows "filter P xs = [x] \<longleftrightarrow> x \<in> set xs \<and> P x \<and> (\<forall>y \<in> set xs. P y \<longrightarrow> y = x)"
proof
  assume eq: "filter P xs = [x]"
  then have "set (filter P xs) = {x}" by simp
  then show "x \<in> set xs \<and> P x \<and> (\<forall>y \<in> set xs. P y \<longrightarrow> y = x)" by auto
next
  assume R: "x \<in> set xs \<and> P x \<and> (\<forall>y \<in> set xs. P y \<longrightarrow> y = x)"
  then have "set (filter P xs) = {x}" by auto
  moreover from assms have "distinct (filter P xs)" by simp
  ultimately show "filter P xs = [x]"
    by (metis distinct_card card.empty card_insert_disjoint finite.emptyI empty_iff
        length_0_conv length_Suc_conv list.set(1) list.set(2) singletonI insert_iff
        insert_absorb singleton_insert_inj_eq' One_nat_def)
qed

definition pair_at :: "bytes \<Rightarrow> u64 \<Rightarrow> u64 \<Rightarrow> nat \<Rightarrow> bool" where
  "pair_at data i q p \<longleftrightarrow>
     p + 16 \<le> length data \<and> slice8 data p = to_le_bytes i \<and> slice8 data (p + 8) = to_le_bytes q"

definition amount_at :: "bytes \<Rightarrow> u64 \<Rightarrow> nat \<Rightarrow> bool" where
  "amount_at data i p \<longleftrightarrow> p + 16 \<le> length data \<and> slice8 data p = to_le_bytes i"

definition unique :: "(nat \<Rightarrow> bool) \<Rightarrow> nat \<Rightarrow> bool" where
  "unique P p \<longleftrightarrow> P p \<and> (\<forall>p'. P p' \<longrightarrow> p' = p)"

lemma scan_positions:
  assumes "16 \<le> length data"
  shows "scan_unique hit [0..<length data - 16 + 1] None 0 = Some (Some p) \<longleftrightarrow>
      unique (\<lambda>p. p + 16 \<le> length data \<and> hit p) p"
    and "scan_unique hit [0..<length data - 16 + 1] None 0 = Some None \<longleftrightarrow>
      (\<forall>p. p + 16 \<le> length data \<longrightarrow> \<not> hit p)"
proof -
  let ?ps = "[0..<length data - 16 + 1]"
  have mem: "p \<in> set ?ps \<longleftrightarrow> p + 16 \<le> length data" for p using assms by auto
  have "scan_unique hit ?ps None 0 = Some (Some p) \<longleftrightarrow> filter hit ?ps = [p]"
    by (auto simp: scan_unique_filter split: list.splits)
  also have "\<dots> \<longleftrightarrow> unique (\<lambda>p. p + 16 \<le> length data \<and> hit p) p"
    by (subst filter_singleton_iff) (auto simp only: distinct_upt unique_def mem)
  finally show "scan_unique hit ?ps None 0 = Some (Some p) \<longleftrightarrow>
      unique (\<lambda>p. p + 16 \<le> length data \<and> hit p) p" .
  have "scan_unique hit ?ps None 0 = Some None \<longleftrightarrow> filter hit ?ps = []"
    by (auto simp: scan_unique_filter split: list.splits)
  also have "\<dots> \<longleftrightarrow> (\<forall>p. p + 16 \<le> length data \<longrightarrow> \<not> hit p)"
    by (simp only: filter_empty_conv mem Ball_def)
  finally show "scan_unique hit ?ps None 0 = Some None \<longleftrightarrow>
      (\<forall>p. p + 16 \<le> length data \<longrightarrow> \<not> hit p)" .
qed

lemma two_pass_iff:
  fixes a b :: nat
  assumes "\<And>p. s1 = Some (Some p) \<longleftrightarrow> unique P1 p" and "s1 = Some None \<longleftrightarrow> N1"
    and "\<And>p. s2 = Some (Some p) \<longleftrightarrow> unique P2 p"
  shows "(case s1 of
            None \<Rightarrow> None
          | Some (Some p) \<Rightarrow> Some (p, p + 8)
          | Some None \<Rightarrow> (case s2 of Some (Some p) \<Rightarrow> Some (p, p + 8) | _ \<Rightarrow> None)) = Some (a, b) \<longleftrightarrow>
    b = a + 8 \<and> (unique P1 a \<or> N1 \<and> unique P2 a)"
  unfolding assms [symmetric] by (auto split: option.splits)

lemma discover_offsets_iff:
  "discover_offsets data i q = Some (a, b) \<longleftrightarrow>
     b = a + 8 \<and>
     (unique (pair_at data i q) a \<or>
      (\<forall>p. \<not> pair_at data i q p) \<and> unique (amount_at data i) a)"
proof (cases "length data < 16")
  case True
  then show ?thesis
    by (auto simp: discover_offsets_def unique_def pair_at_def amount_at_def)
next
  case False
  then have len: "16 \<le> length data" by simp
  let ?pair = "\<lambda>p. slice8 data p = to_le_bytes i \<and> slice8 data (p + 8) = to_le_bytes q"
  let ?one = "\<lambda>p. slice8 data p = to_le_bytes i"
  have pair: "pair_at data i q = (\<lambda>p. p + 16 \<le> length data \<and> ?pair p)"
    and one: "amount_at data i = (\<lambda>p. p + 16 \<le> length data \<and> ?one p)"
    by (auto simp: pair_at_def amount_at_def fun_eq_iff)
  have nopair: "(\<forall>p. \<not> pair_at data i q p) \<longleftrightarrow> (\<forall>p. p + 16 \<le> length data \<longrightarrow> \<not> ?pair p)"
    by (auto simp: pair_at_def)
  from two_pass_iff [OF scan_positions(1) [OF len, of ?pair] scan_positions(2) [OF len, of ?pair]
      scan_positions(1) [OF len, of ?one], of a b]
  show ?thesis
    unfolding nopair unfolding pair one discover_offsets_def Let_def if_not_P [OF False] .
qed

subsection \<open>Patching\<close>

lemma length_put_bytes: "off + length bs \<le> length data \<Longrightarrow> length (put_bytes off bs data) = length data"
  by (simp add: put_bytes_def)

lemma nth_put_bytes:
  "off + length bs \<le> length data \<Longrightarrow> j < length data \<Longrightarrow>
   put_bytes off bs data ! j =
     (if off \<le> j \<and> j < off + length bs then bs ! (j - off) else data ! j)"
  by (auto simp: put_bytes_def nth_append min_def)

lemma slice8_put_bytes_same:
  "length bs = 8 \<Longrightarrow> off + 8 \<le> length data \<Longrightarrow> slice8 (put_bytes off bs data) off = bs"
  by (simp add: slice8_def put_bytes_def)

lemma slice8_put_bytes_other:
  assumes "off + length bs \<le> length data" and "p + 8 \<le> length data"
    and "p + 8 \<le> off \<or> off + length bs \<le> p"
  shows "slice8 (put_bytes off bs data) p = slice8 data p"
proof (rule nth_equalityI)
  show "length (slice8 (put_bytes off bs data) p) = length (slice8 data p)"
    using assms by (simp add: slice8_def length_put_bytes)
next
  fix j assume "j < length (slice8 (put_bytes off bs data) p)"
  then have j: "j < 8" "p + j < length data"
    using assms by (simp_all add: slice8_def length_put_bytes)
  with assms(3) have "\<not> (off \<le> p + j \<and> p + j < off + length bs)" by linarith
  with nth_put_bytes [OF assms(1) j(2)] have "put_bytes off bs data ! (p + j) = data ! (p + j)"
    by (simp only: if_False)
  with assms j show "slice8 (put_bytes off bs data) p ! j = slice8 data p ! j"
    by (simp add: slice8_def length_put_bytes)
qed

definition patched :: "nat \<Rightarrow> u64 \<Rightarrow> u64 \<Rightarrow> bytes \<Rightarrow> bytes" where
  "patched a new_in new_out data =
     put_bytes (a + 8) (to_le_bytes new_out) (put_bytes a (to_le_bytes new_in) data)"

lemma patched_facts:
  assumes "a + 16 \<le> length data"
  shows "length (patched a i q data) = length data"
    and "slice8 (patched a i q data) a = to_le_bytes i"
    and "slice8 (patched a i q data) (a + 8) = to_le_bytes q"
    and "j < length data \<Longrightarrow> j < a \<or> a + 16 \<le> j \<Longrightarrow> patched a i q data ! j = data ! j"
  using assms
  by (auto simp: patched_def length_put_bytes slice8_put_bytes_same slice8_put_bytes_other
      nth_put_bytes)

lemma patch_at_discovered:
  assumes "dec b64 = Some data" and "a + 16 \<le> length data" and "length data < 2 ^ 64"
  shows "patch_amounts_b64 enc dec b64 a (a + 8) i q = Ok (enc (patched a i q data))"
proof -
  have "(a + 8) mod 2 ^ 64 = a + 8" "(a + 8 + 8) mod 2 ^ 64 = a + 8 + 8"
    using assms by (simp_all add: mod_less)
  with assms show ?thesis by (simp add: patch_amounts_b64_def patched_def add.assoc)
qed

lemma discovered_in_range: "discover_offsets data i q = Some (a, b) \<Longrightarrow> a + 16 \<le> length data"
  by (auto simp: discover_offsets_iff unique_def pair_at_def amount_at_def)

text \<open>A template whose base instruction decodes, with the offsets found in it.\<close>

definition template_of :: "decoder \<Rightarrow> bytes \<Rightarrow> route_template \<Rightarrow> nat \<Rightarrow> bool" where
  "template_of dec data t a \<longleftrightarrow>
     dec (ix_data (swap_instruction (rt_swap_ixs t))) = Some data \<and>
     discover_offsets data (rt_template_in_amount t) (rt_template_quoted_out t) = Some (a, a + 8) \<and>
     rt_in_amount_offset t = Some a \<and> rt_quoted_out_offset t = Some (a + 8)"

lemma serve_route_patched:
  assumes "template_of dec data t a" and "length data < 2 ^ 64"
    and "hm_get (rt_amount_variants t) new_in = None"
  shows "serve_route enc dec t new_in new_out =
    Ok (with_data (rt_swap_ixs t) (enc (patched a new_in
      (new_in + (rt_template_quoted_out t - rt_template_in_amount t)) data)))"
proof -
  have "a + 16 \<le> length data"
    using assms(1) discovered_in_range by (auto simp: template_of_def)
  then show ?thesis
    using assms by (simp add: template_of_def serve_route_def Let_def patch_at_discovered)
qed

subsection \<open>Properties\<close>

text \<open>C22: \<open>discover_offsets\<close> answers exactly when the consecutive pair of amounts occurs once,
  or the pair occurs nowhere and the input amount alone occurs once; it then returns that
  position and the one eight bytes later.\<close>

theorem discover_offsets_exact:
  "discover_offsets data in_amount quoted_out = Some (a, b) \<longleftrightarrow>
     b = a + 8 \<and>
     (unique (pair_at data in_amount quoted_out) a \<or>
      (\<forall>p. \<not> pair_at data in_amount quoted_out p) \<and> unique (amount_at data in_amount) a)"
  by (rule discover_offsets_iff)

text \<open>Without any occurrence of the pair the answer may still be an offset: the second pass
  accepts a lone input amount.\<close>

lemma discover_offsets_without_pair:
  "discover_offsets (to_le_bytes 100 @ to_le_bytes 5) 100 6700 = Some (0, 8)"
  by (simp add: discover_offsets_def scan_unique_filter slice8_def le_bytes_def upt_rec)

text \<open>C11: a template hit for an amount that was never cached returns the base instruction
  with exactly the sixteen amount bytes replaced: the requested input, and that input plus
  the template's margin; every other byte and every other field is the base's.\<close>

theorem serve_route_patches_amounts:
  assumes "\<And>d. dec (enc d) = Some d"
    and "template_of dec data t a" and "length data < 2 ^ 64"
    and "hm_get (rt_amount_variants t) new_in = None"
  shows "\<exists>r d. serve_route enc dec t new_in new_out = Ok r \<and>
    r = with_data (rt_swap_ixs t) (ix_data (swap_instruction r)) \<and>
    dec (ix_data (swap_instruction r)) = Some d \<and> length d = length data \<and>
    of_le_bytes (slice8 d a) = new_in \<and>
    of_le_bytes (slice8 d (a + 8)) =
      new_in + (rt_template_quoted_out t - rt_template_in_amount t) \<and>
    (\<forall>j. j < length data \<and> (j < a \<or> a + 16 \<le> j) \<longrightarrow> d ! j = data ! j)"
proof -
  have "a + 16 \<le> length data"
    using assms(2) discovered_in_range by (auto simp: template_of_def)
  note facts = patched_facts [OF this]
  show ?thesis
    using serve_route_patched [OF assms(2-4), of enc new_out] assms(1) facts
    by (auto simp: with_data_def)
qed

text \<open>A concrete codec (one character per byte) and template.\<close>

definition plain_enc :: encoder where
  "plain_enc d = map (\<lambda>b. char_of (unat b)) d"

definition plain_dec :: decoder where
  "plain_dec s = Some (map (\<lambda>c. of_nat (of_char c :: nat)) s)"

lemma plain_dec_enc: "plain_dec (plain_enc d) = Some d"
proof -
  have "(of_nat (of_char (char_of (unat b) :: char) :: nat) :: u8) = b" for b :: u8
  proof -
    have "unat b < 256" using unsigned_less [of b, where 'a = nat] by simp
    then show ?thesis by simp
  qed
  then show ?thesis by (simp add: plain_dec_def plain_enc_def o_def)
qed

definition sample_swap :: "string \<Rightarrow> swap_instructions_response" where
  "sample_swap d = \<lparr>compute_budget_instructions = [], setup_instructions = [],
     swap_instruction = \<lparr>ix_program_id = ''J'', ix_accounts = [], ix_data = d\<rparr>,
     cleanup_instruction = None, address_lookup_table_addresses = [''L'']\<rparr>"

definition sample_template :: route_template where
  "sample_template = \<lparr>rt_route_signature = 9,
     rt_swap_ixs = sample_swap (plain_enc (to_le_bytes 100 @ to_le_bytes 6700)),
     rt_template_in_amount = 100, rt_template_quoted_out = 6700,
     rt_in_amount_offset = Some 0, rt_quoted_out_offset = Some 8,
     rt_amount_variants = [], rt_seen_count = 1, rt_hit_count = 0\<rparr>"

lemma sample_template_ok:
  "template_of plain_dec (to_le_bytes 100 @ to_le_bytes 6700) sample_template 0"
proof -
  have "discover_offsets (to_le_bytes 100 @ to_le_bytes 6700) 100 6700 = Some (0, 8)"
    by (simp add: discover_offsets_def scan_unique_filter slice8_def le_bytes_def upt_rec)
  then show ?thesis
    by (simp add: template_of_def sample_template_def sample_swap_def plain_dec_enc)
qed

theorem serve_route_patches_amounts_witness:
  "\<exists>r d. serve_route plain_enc plain_dec sample_template 500 0 = Ok r \<and>
     plain_dec (ix_data (swap_instruction r)) = Some d \<and>
     of_le_bytes (slice8 d 0) = (500 :: u64) \<and> of_le_bytes (slice8 d 8) = (7100 :: u64)"
  using serve_route_patches_amounts [OF plain_dec_enc sample_template_ok, of 500 0]
  by (auto simp: sample_template_def)

end
