(* ===== verification/TemplateStore.thy ===== *)
theory TemplateStore
  imports HopKeys AmountPatch
begin

text \<open>
  \<open>TemplateStore\<close> of \<open>src/src/template_cache.rs\<close>: route templates in a hot and a cold
  segment, hop templates, and the index from hop pairs to routes.  An operation is a
  function on the state behind the \<open>RwLock\<close>; \<open>get_route\<close>, which takes the lock twice, is
  split at that point.  Lock poisoning does not occur (a panic aborts the process).
\<close>

definition ROUTE_SEG_CAP :: nat where
  "ROUTE_SEG_CAP = 2000"

record hop_template =
  ht_dex :: dex_kind
  ht_pool_or_amm_key :: string
  ht_input_mint :: string
  ht_output_mint :: string
  ht_direction :: direction_params
  ht_remaining_accounts_hash :: u64
  ht_seen_count :: u64
  ht_first_seen_slot :: "u64 option"
  ht_last_seen_slot :: "u64 option"

record store =
  routes_hot :: "(u128, route_template) hmap"
  routes_cold :: "(u128, route_template) hmap"
  hops :: "(hop_key, hop_template) hmap"
  hop_pair_index :: "(string, u128) hmap"

definition new_store :: store where
  "new_store = \<lparr>routes_hot = [], routes_cold = [], hops = [], hop_pair_index = []\<rparr>"

subsection \<open>Routes\<close>

definition push_hot_route :: "u128 \<Rightarrow> route_template \<Rightarrow> store \<Rightarrow> store" where
  "push_hot_route sig tmpl g =
     (let g = (if length (routes_hot g) \<ge> ROUTE_SEG_CAP
               then g\<lparr>routes_cold := routes_hot g, routes_hot := []\<rparr> else g)
      in g\<lparr>routes_hot := hm_insert sig tmpl (routes_hot g)\<rparr>)"

definition bump_hit :: "route_template \<Rightarrow> route_template" where
  "bump_hit t = t\<lparr>rt_hit_count := rt_hit_count t + 1\<rparr>"

text \<open>Under the read lock: an answer, or the decision to take the write lock.\<close>

datatype read_phase = Answer "route_template option" | NeedWrite

definition get_route_read :: "u128 \<Rightarrow> store \<Rightarrow> read_phase" where
  "get_route_read sig g =
     (case hm_get (routes_hot g) sig of
        Some t \<Rightarrow> Answer (Some t)
      | None \<Rightarrow> if \<not> hm_contains (routes_cold g) sig then Answer None else NeedWrite)"

definition get_route_write :: "u128 \<Rightarrow> store \<Rightarrow> store \<times> route_template option" where
  "get_route_write sig g =
     (case hm_get (routes_cold g) sig of
        Some t \<Rightarrow>
          (let g = g\<lparr>routes_cold := hm_remove sig (routes_cold g)\<rparr>; t = bump_hit t
           in (push_hot_route sig t g, Some t))
      | None \<Rightarrow> (g, hm_get (routes_hot g) sig))"

definition get_route :: "u128 \<Rightarrow> store \<Rightarrow> store \<times> route_template option" where
  "get_route sig g =
     (case get_route_read sig g of
        Answer r \<Rightarrow> (g, r)
      | NeedWrite \<Rightarrow> get_route_write sig g)"

definition record_route_hit :: "u128 \<Rightarrow> store \<Rightarrow> store" where
  "record_route_hit sig g =
     (if hm_contains (routes_hot g) sig then g\<lparr>routes_hot := hm_modify sig bump_hit (routes_hot g)\<rparr>
      else if hm_contains (routes_cold g) sig
      then g\<lparr>routes_cold := hm_modify sig bump_hit (routes_cold g)\<rparr>
      else g)"

definition see_again :: "u64 \<Rightarrow> swap_instructions_response \<Rightarrow> route_template \<Rightarrow> route_template" where
  "see_again in_amount swap_ixs t =
     t\<lparr>rt_seen_count := rt_seen_count t + 1,
       rt_amount_variants := hm_or_insert in_amount swap_ixs (rt_amount_variants t)\<rparr>"

definition new_template ::
  "decoder \<Rightarrow> u128 \<Rightarrow> swap_instructions_response \<Rightarrow> u64 \<Rightarrow> u64 \<Rightarrow> route_template" where
  "new_template dec sig swap_ixs in_amount quoted_out =
     (let offsets = Option.bind (dec (ix_data (swap_instruction swap_ixs)))
                      (\<lambda>d. discover_offsets d in_amount quoted_out)
      in \<lparr>rt_route_signature = sig, rt_swap_ixs = swap_ixs,
          rt_template_in_amount = in_amount, rt_template_quoted_out = quoted_out,
          rt_in_amount_offset = map_option fst offsets,
          rt_quoted_out_offset = map_option snd offsets,
          rt_amount_variants = hm_insert in_amount swap_ixs [],
          rt_seen_count = 1, rt_hit_count = 0\<rparr>)"

definition insert_route ::
  "decoder \<Rightarrow> u128 \<Rightarrow> swap_instructions_response \<Rightarrow> u64 \<Rightarrow> u64 \<Rightarrow> json \<Rightarrow> store \<Rightarrow> store" where
  "insert_route dec sig swap_ixs in_amount quoted_out route_plan g =
     (if hm_contains (routes_hot g) sig
      then g\<lparr>routes_hot := hm_modify sig (see_again in_amount swap_ixs) (routes_hot g)\<rparr>
      else if hm_contains (routes_cold g) sig
      then g\<lparr>routes_cold := hm_modify sig (see_again in_amount swap_ixs) (routes_cold g)\<rparr>
      else
        let g = push_hot_route sig (new_template dec sig swap_ixs in_amount quoted_out) g
        in case pair_key route_plan of
             None \<Rightarrow> g
           | Some k \<Rightarrow> g\<lparr>hop_pair_index := hm_or_insert k sig (hop_pair_index g)\<rparr>)"

definition get_route_for_hops :: "json \<Rightarrow> store \<Rightarrow> store \<times> route_template option" where
  "get_route_for_hops route_plan g =
     (case pair_key route_plan of
        None \<Rightarrow> (g, None)
      | Some k \<Rightarrow>
          (case hm_get (hop_pair_index g) k of
             None \<Rightarrow> (g, None)
           | Some sig \<Rightarrow> get_route sig g))"

subsection \<open>Hops\<close>

definition hop_seen :: "store \<Rightarrow> json \<Rightarrow> bool" where
  "hop_seen g hop = (case hop_key_of hop of None \<Rightarrow> False | Some k \<Rightarrow> hm_contains (hops g) k)"

definition check_hops :: "json \<Rightarrow> store \<Rightarrow> bool \<times> nat" where
  "check_hops route_plan g =
     (let missing = (case as_array route_plan of
                       None \<Rightarrow> 0
                     | Some arr \<Rightarrow> fold (\<lambda>hop n. if hop_seen g hop then n else n + 1) arr 0)
      in (missing = 0, missing))"

definition new_hop_template :: "hop_key \<Rightarrow> u64 option \<Rightarrow> hop_template" where
  "new_hop_template key slot =
     \<lparr>ht_dex = hk_dex key, ht_pool_or_amm_key = hk_pool_or_amm_key key,
      ht_input_mint = hk_input_mint key, ht_output_mint = hk_output_mint key,
      ht_direction = hk_direction key,
      ht_remaining_accounts_hash = hk_remaining_accounts_hash key,
      ht_seen_count = 0, ht_first_seen_slot = slot, ht_last_seen_slot = slot\<rparr>"

definition record_hop :: "u64 option \<Rightarrow> json \<Rightarrow> store \<Rightarrow> store" where
  "record_hop slot hop g =
     (case hop_key_of hop of
        None \<Rightarrow> g
      | Some key \<Rightarrow>
          g\<lparr>hops := hm_modify key
              (\<lambda>t. t\<lparr>ht_seen_count := ht_seen_count t + 1, ht_last_seen_slot := slot\<rparr>)
              (hm_or_insert key (new_hop_template key slot) (hops g))\<rparr>)"

definition record_hops :: "json \<Rightarrow> u64 option \<Rightarrow> store \<Rightarrow> store" where
  "record_hops route_plan slot g =
     (case as_array route_plan of
        None \<Rightarrow> g
      | Some arr \<Rightarrow> fold (record_hop slot) arr g)"

subsection \<open>Statistics\<close>

definition route_count :: "store \<Rightarrow> nat" where
  "route_count g = length (routes_hot g) + length (routes_cold g)"

definition hop_count :: "store \<Rightarrow> nat" where
  "hop_count g = length (hops g)"

definition patchable_route_count :: "store \<Rightarrow> nat" where
  "patchable_route_count g =
     length (filter (\<lambda>(_, t). rt_in_amount_offset t \<noteq> None) (routes_hot g @ routes_cold g))"

subsection \<open>The abstract view and the invariant\<close>

text \<open>The segments together are one map from signatures to templates.\<close>

definition lookup_route :: "store \<Rightarrow> u128 \<Rightarrow> route_template option" where
  "lookup_route g sig =
     (case hm_get (routes_hot g) sig of Some t \<Rightarrow> Some t | None \<Rightarrow> hm_get (routes_cold g) sig)"

text \<open>A template is stored under its own signature, and its offsets are those found in its
  base instruction.\<close>

definition template_wf :: "decoder \<Rightarrow> u128 \<Rightarrow> route_template \<Rightarrow> bool" where
  "template_wf dec sig t \<longleftrightarrow>
     rt_route_signature t = sig \<and>
     (let offsets = Option.bind (dec (ix_data (swap_instruction (rt_swap_ixs t))))
          (\<lambda>d. discover_offsets d (rt_template_in_amount t) (rt_template_quoted_out t))
      in rt_in_amount_offset t = map_option fst offsets \<and>
         rt_quoted_out_offset t = map_option snd offsets)"

definition segments_ok :: "store \<Rightarrow> bool" where
  "segments_ok g \<longleftrightarrow>
     hm_ok (routes_hot g) \<and> hm_ok (routes_cold g) \<and> hm_ok (hops g) \<and> hm_ok (hop_pair_index g) \<and>
     (\<forall>sig. hm_get (routes_hot g) sig \<noteq> None \<longrightarrow> hm_get (routes_cold g) sig = None)"

definition templates_ok :: "decoder \<Rightarrow> store \<Rightarrow> bool" where
  "templates_ok dec g \<longleftrightarrow> (\<forall>sig t. lookup_route g sig = Some t \<longrightarrow> template_wf dec sig t)"

definition within_cap :: "store \<Rightarrow> bool" where
  "within_cap g \<longleftrightarrow>
     length (routes_hot g) \<le> ROUTE_SEG_CAP \<and> length (routes_cold g) \<le> ROUTE_SEG_CAP"

definition store_inv :: "decoder \<Rightarrow> store \<Rightarrow> bool" where
  "store_inv dec g \<longleftrightarrow> segments_ok g \<and> templates_ok dec g"

lemma store_inv_new [simp]: "store_inv dec new_store" "within_cap new_store"
  by (simp_all add: store_inv_def segments_ok_def templates_ok_def lookup_route_def within_cap_def
      new_store_def)

subsection \<open>Pushing into the hot segment\<close>

text \<open>Whether the next push rotates the segments, dropping the cold one.\<close>

definition rotates :: "store \<Rightarrow> bool" where
  "rotates g \<longleftrightarrow> length (routes_hot g) \<ge> ROUTE_SEG_CAP"

lemma push_hot_route_frame [frame_simps]:
  "hops (push_hot_route sig t g) = hops g"
  "hop_pair_index (push_hot_route sig t g) = hop_pair_index g"
  by (simp_all add: push_hot_route_def Let_def)

lemma lookup_push_hot_route:
  "lookup_route (push_hot_route sig t g) sig' =
     (if sig' = sig then Some t
      else if rotates g then hm_get (routes_hot g) sig' else lookup_route g sig')"
  by (auto simp: lookup_route_def push_hot_route_def Let_def rotates_def split: option.splits)

lemma segments_ok_push:
  assumes "segments_ok g" and "hm_get (routes_cold g) sig = None"
    and "hm_get (routes_hot g) sig = None"
  shows "segments_ok (push_hot_route sig t g)"
  using assms by (auto simp: segments_ok_def push_hot_route_def Let_def)

lemma within_cap_push: "within_cap g \<Longrightarrow> within_cap (push_hot_route sig t g)"
  by (auto simp: within_cap_def push_hot_route_def Let_def length_hm_insert ROUTE_SEG_CAP_def)

lemma lookup_hot: "hm_get (routes_hot g) sig = Some t \<Longrightarrow> lookup_route g sig = Some t"
  by (simp add: lookup_route_def)

lemma templates_ok_push:
  "templates_ok dec g \<Longrightarrow> template_wf dec sig t \<Longrightarrow> templates_ok dec (push_hot_route sig t g)"
  by (auto simp: templates_ok_def lookup_push_hot_route dest: lookup_hot split: if_splits)

subsection \<open>Every operation keeps the invariant and the capacity\<close>

named_theorems store_keeps "operations that keep the store's invariant or capacity"

lemma template_wf_bump [simp]: "template_wf dec sig (bump_hit t) = template_wf dec sig t"
  by (simp add: template_wf_def bump_hit_def)

lemma template_wf_see_again [simp]:
  "template_wf dec sig (see_again a r t) = template_wf dec sig t"
  by (simp add: template_wf_def see_again_def)

lemma template_wf_new: "template_wf dec sig (new_template dec sig r i q)"
  by (simp add: template_wf_def new_template_def Let_def)

lemma segments_ok_drop_cold:
  "segments_ok g \<Longrightarrow> segments_ok (g\<lparr>routes_cold := hm_remove sig (routes_cold g)\<rparr>)"
  by (auto simp: segments_ok_def hm.get_del)

lemma lookup_drop_cold:
  "segments_ok g \<Longrightarrow> sig' \<noteq> sig \<Longrightarrow>
   lookup_route (g\<lparr>routes_cold := hm_remove sig (routes_cold g)\<rparr>) sig' = lookup_route g sig'"
  by (simp add: lookup_route_def segments_ok_def hm.get_del split: option.split)

lemma get_route_cold:
  assumes "hm_get (routes_hot g) sig = None" and "hm_get (routes_cold g) sig = Some t"
  shows "get_route sig g =
    (push_hot_route sig (bump_hit t) (g\<lparr>routes_cold := hm_remove sig (routes_cold g)\<rparr>),
     Some (bump_hit t))"
  using assms by (simp add: get_route_def get_route_read_def get_route_write_def hm_contains_def
      Let_def)

lemma get_route_not_cold:
  assumes "hm_get (routes_hot g) sig \<noteq> None \<or> hm_get (routes_cold g) sig = None"
  shows "get_route sig g = (g, hm_get (routes_hot g) sig)"
  using assms by (auto simp: get_route_def get_route_read_def hm_contains_def split: option.splits)

lemma get_route_cases:
  obtains (cold) t where "hm_get (routes_hot g) sig = None" "hm_get (routes_cold g) sig = Some t"
      "get_route sig g =
        (push_hot_route sig (bump_hit t) (g\<lparr>routes_cold := hm_remove sig (routes_cold g)\<rparr>),
         Some (bump_hit t))"
    | (stay) "get_route sig g = (g, hm_get (routes_hot g) sig)"
      "hm_get (routes_hot g) sig \<noteq> None \<or> hm_get (routes_cold g) sig = None"
proof (cases "hm_get (routes_hot g) sig \<noteq> None \<or> hm_get (routes_cold g) sig = None")
  case True
  then show ?thesis by (intro stay get_route_not_cold)
next
  case False
  then obtain t where "hm_get (routes_hot g) sig = None" "hm_get (routes_cold g) sig = Some t"
    by auto
  with cold get_route_cold show ?thesis by blast
qed

lemma store_inv_get_route [store_keeps]: "store_inv dec g \<Longrightarrow> store_inv dec (fst (get_route sig g))"
proof (cases rule: get_route_cases [of g sig])
  case (cold t)
  assume inv: "store_inv dec g"
  let ?g = "g\<lparr>routes_cold := hm_remove sig (routes_cold g)\<rparr>"
  have seg: "segments_ok ?g"
    using inv by (simp add: store_inv_def segments_ok_drop_cold)
  have "lookup_route g sig = Some t" using cold by (simp add: lookup_route_def)
  with inv have wf: "template_wf dec sig t" by (auto simp: store_inv_def templates_ok_def)
  have "templates_ok dec ?g"
    unfolding templates_ok_def
  proof (intro allI impI)
    fix sig' t' assume "lookup_route ?g sig' = Some t'"
    then have "lookup_route g sig' = Some t'"
      using inv by (auto simp: lookup_route_def store_inv_def segments_ok_def hm.get_del
          split: option.splits if_splits)
    with inv show "template_wf dec sig' t'" by (auto simp: store_inv_def templates_ok_def)
  qed
  moreover have "hm_get (routes_cold ?g) sig = None"
    using inv by (simp add: store_inv_def segments_ok_def hm.get_del)
  ultimately show ?thesis
    using seg wf cold by (simp add: store_inv_def segments_ok_push templates_ok_push)
qed simp

lemma within_cap_get_route [store_keeps]:
  "segments_ok g \<Longrightarrow> within_cap g \<Longrightarrow> within_cap (fst (get_route sig g))"
proof (cases rule: get_route_cases [of g sig])
  case (cold t)
  assume "segments_ok g" "within_cap g"
  then have "within_cap (g\<lparr>routes_cold := hm_remove sig (routes_cold g)\<rparr>)"
    by (auto simp: within_cap_def segments_ok_def length_hm_remove)
  with cold show ?thesis by (simp add: within_cap_push)
qed simp

lemma lookup_modify_hot:
  "lookup_route (g\<lparr>routes_hot := hm_modify sig f (routes_hot g)\<rparr>) sig' =
     (if sig' = sig \<and> hm_contains (routes_hot g) sig then map_option f (lookup_route g sig')
      else lookup_route g sig')"
  by (auto simp: lookup_route_def hm_contains_def split: option.splits)

lemma lookup_modify_cold:
  "\<not> hm_contains (routes_hot g) sig \<Longrightarrow>
   lookup_route (g\<lparr>routes_cold := hm_modify sig f (routes_cold g)\<rparr>) sig' =
     (if sig' = sig then map_option f (lookup_route g sig') else lookup_route g sig')"
  by (auto simp: lookup_route_def hm_contains_def split: option.splits)

lemma store_inv_modify:
  assumes "store_inv dec g" and "\<And>t. template_wf dec sig t \<Longrightarrow> template_wf dec sig (f t)"
  shows "store_inv dec (g\<lparr>routes_hot := hm_modify sig f (routes_hot g)\<rparr>)"
    and "\<not> hm_contains (routes_hot g) sig \<Longrightarrow>
      store_inv dec (g\<lparr>routes_cold := hm_modify sig f (routes_cold g)\<rparr>)"
  using assms
  by (auto simp: store_inv_def segments_ok_def templates_ok_def lookup_modify_hot
      lookup_modify_cold split: if_splits)

lemma store_inv_record_route_hit [store_keeps]:
  "store_inv dec g \<Longrightarrow> store_inv dec (record_route_hit sig g)"
  by (simp add: record_route_hit_def store_inv_modify)

lemma within_cap_record_route_hit [store_keeps]:
  "within_cap g \<Longrightarrow> within_cap (record_route_hit sig g)"
  by (simp add: record_route_hit_def within_cap_def)

lemma lookup_index [simp]: "lookup_route (g\<lparr>hop_pair_index := m\<rparr>) sig = lookup_route g sig"
  by (simp add: lookup_route_def split: option.split)

lemma store_inv_index:
  "store_inv dec g \<Longrightarrow> store_inv dec (g\<lparr>hop_pair_index := hm_or_insert k sig (hop_pair_index g)\<rparr>)"
  by (simp add: store_inv_def segments_ok_def templates_ok_def lookup_index)

lemma store_inv_insert_route [store_keeps]:
  assumes "store_inv dec g"
  shows "store_inv dec (insert_route dec sig r i q plan g)"
proof -
  have "store_inv dec (push_hot_route sig (new_template dec sig r i q) g)"
    if "\<not> hm_contains (routes_hot g) sig" "\<not> hm_contains (routes_cold g) sig"
    using assms that
    by (simp add: store_inv_def segments_ok_push templates_ok_push template_wf_new hm_contains_def)
  with assms show ?thesis
    by (auto simp: insert_route_def Let_def store_inv_modify store_inv_index split: option.splits)
qed

lemma within_cap_insert_route [store_keeps]:
  "within_cap g \<Longrightarrow> within_cap (insert_route dec sig r i q plan g)"
proof -
  assume "within_cap g"
  then have "within_cap (push_hot_route sig (new_template dec sig r i q) g)"
    by (rule within_cap_push)
  with \<open>within_cap g\<close> show ?thesis
    by (auto simp: insert_route_def Let_def within_cap_def split: option.splits)
qed

lemma record_hop_frame [frame_simps]:
  "routes_hot (record_hop slot hop g) = routes_hot g"
  "routes_cold (record_hop slot hop g) = routes_cold g"
  "hop_pair_index (record_hop slot hop g) = hop_pair_index g"
  by (auto simp: record_hop_def split: option.splits)

lemma fold_record_hop_frame [frame_simps]:
  "routes_hot (fold (record_hop slot) arr g) = routes_hot g"
  "routes_cold (fold (record_hop slot) arr g) = routes_cold g"
  "hop_pair_index (fold (record_hop slot) arr g) = hop_pair_index g"
  by (induction arr arbitrary: g) (simp_all add: frame_simps)

lemma record_hops_frame [frame_simps]:
  "routes_hot (record_hops plan slot g) = routes_hot g"
  "routes_cold (record_hops plan slot g) = routes_cold g"
  "hop_pair_index (record_hops plan slot g) = hop_pair_index g"
  by (auto simp: record_hops_def frame_simps split: option.splits)

lemma hops_ok_record_hop: "hm_ok (hops g) \<Longrightarrow> hm_ok (hops (record_hop slot hop g))"
  by (auto simp: record_hop_def split: option.splits)

lemma hops_ok_record_hops: "hm_ok (hops g) \<Longrightarrow> hm_ok (hops (record_hops plan slot g))"
proof -
  have "hm_ok (hops g) \<Longrightarrow> hm_ok (hops (fold (record_hop slot) arr g))" for arr
    by (induction arr arbitrary: g) (simp_all add: hops_ok_record_hop)
  then show "hm_ok (hops g) \<Longrightarrow> hm_ok (hops (record_hops plan slot g))"
    by (auto simp: record_hops_def split: option.splits)
qed

lemma lookup_record_hops [simp]: "lookup_route (record_hops plan slot g) sig = lookup_route g sig"
  by (simp add: lookup_route_def frame_simps split: option.split)

lemma store_inv_record_hops [store_keeps]:
  "store_inv dec g \<Longrightarrow> store_inv dec (record_hops plan slot g)"
  by (auto simp: store_inv_def segments_ok_def templates_ok_def frame_simps hops_ok_record_hops)

lemma within_cap_record_hops [store_keeps]:
  "within_cap g \<Longrightarrow> within_cap (record_hops plan slot g)"
  by (simp add: within_cap_def frame_simps)

lemma get_route_for_hops_cases:
  "get_route_for_hops plan g = (g, None) \<or> (\<exists>sig. get_route_for_hops plan g = get_route sig g)"
  by (auto simp: get_route_for_hops_def split: option.splits)

lemma store_inv_get_route_for_hops [store_keeps]:
  "store_inv dec g \<Longrightarrow> store_inv dec (fst (get_route_for_hops plan g))"
  using get_route_for_hops_cases [of plan g] store_inv_get_route by auto

lemma within_cap_get_route_for_hops [store_keeps]:
  "segments_ok g \<Longrightarrow> within_cap g \<Longrightarrow> within_cap (fst (get_route_for_hops plan g))"
  using get_route_for_hops_cases [of plan g] within_cap_get_route by auto

end
