(* ===== verification/BotMetrics.thy ===== *)
theory BotMetrics
  imports TemplateStore
begin

text \<open>
  \<open>src/src/metrics.rs\<close>: the atomic counters of the pipeline and the reporter that drains them
  every window.  Counters are 64-bit words and wrap, as \<open>fetch_add\<close> does.
\<close>

type_synonym i64 = "64 word"

record metrics =
  metis_req_sent :: u64
  metis_resp_total :: u64
  metis_resp_ok :: u64
  swap_ix_ok :: u64
  ix_from_ram :: u64
  ix_from_metis :: u64
  route_template_hit :: u64
  hop_template_all_hit :: u64
  hop_template_missing :: u64
  swap_ix_failed :: u64
  swap_ix_timeout :: u64
  swap_ix_http :: u64
  swap_ix_network :: u64
  swap_ix_parse :: u64
  dropped_multi_hop :: u64
  dropped_merge_fail :: u64
  dropped_no_serve :: u64
  dropped_same_pool :: u64
  queue_in :: u64
  queue_depth :: i64
  dropped_stale :: u64
  tx_build_failed :: u64
  tx_too_large :: u64
  dropped_account_locks :: u64
  calc_done :: u64
  rate_requeued :: u64
  jito_send_failed :: u64
  jito_sent :: u64
  dropped_busy :: u64
  tx_dropped :: u64
  metis_fetch_ms_total :: u64
  metis_fetch_samples :: u64

definition new_metrics :: metrics where
  "new_metrics =
     \<lparr>metis_req_sent = 0, metis_resp_total = 0, metis_resp_ok = 0,
      swap_ix_ok = 0, ix_from_ram = 0, ix_from_metis = 0,
      route_template_hit = 0, hop_template_all_hit = 0, hop_template_missing = 0,
      swap_ix_failed = 0, swap_ix_timeout = 0, swap_ix_http = 0,
      swap_ix_network = 0, swap_ix_parse = 0, dropped_multi_hop = 0,
      dropped_merge_fail = 0, dropped_no_serve = 0, dropped_same_pool = 0,
      queue_in = 0, queue_depth = 0, dropped_stale = 0,
      tx_build_failed = 0, tx_too_large = 0, dropped_account_locks = 0,
      calc_done = 0, rate_requeued = 0, jito_send_failed = 0,
      jito_sent = 0, dropped_busy = 0, tx_dropped = 0,
      metis_fetch_ms_total = 0, metis_fetch_samples = 0\<rparr>"

subsection \<open>The reporter\<close>

text \<open>One window: every counter is swapped with zero, the queue gauge is only read, and the
  derived figures are computed from the swapped values.\<close>

definition drained :: "metrics \<Rightarrow> metrics" where
  "drained m = m\<lparr>metis_req_sent := 0, metis_resp_total := 0, metis_resp_ok := 0,
      swap_ix_ok := 0, ix_from_ram := 0, ix_from_metis := 0,
      route_template_hit := 0, hop_template_all_hit := 0, hop_template_missing := 0,
      swap_ix_failed := 0, swap_ix_timeout := 0, swap_ix_http := 0,
      swap_ix_network := 0, swap_ix_parse := 0, dropped_multi_hop := 0,
      dropped_merge_fail := 0, dropped_no_serve := 0, dropped_same_pool := 0,
      queue_in := 0, dropped_stale := 0, tx_build_failed := 0,
      tx_too_large := 0, dropped_account_locks := 0, calc_done := 0,
      rate_requeued := 0, jito_send_failed := 0, jito_sent := 0,
      dropped_busy := 0, tx_dropped := 0, metis_fetch_ms_total := 0,
      metis_fetch_samples := 0\<rparr>"

record report =
  rp_sent :: u64
  rp_routes :: u64
  rp_profit :: u64
  rp_sw_ok :: u64
  rp_from_ram :: u64
  rp_from_metis :: u64
  rp_rt_hit :: u64
  rp_ht_all :: u64
  rp_ht_miss :: u64
  rp_swap_fail :: u64
  rp_sf_to :: u64
  rp_sf_http :: u64
  rp_sf_net :: u64
  rp_sf_parse :: u64
  rp_q_in :: u64
  rp_stale :: u64
  rp_build :: u64
  rp_too_big :: u64
  rp_too_locks :: u64
  rp_calc :: u64
  rp_requeued :: u64
  rp_jfail :: u64
  rp_jito :: u64
  rp_ms_ms :: u64
  rp_ms_n :: u64
  rp_drop_hop :: u64
  rp_drop_merge :: u64
  rp_drop_no_srv :: u64
  rp_drop_pool :: u64
  rp_depth :: i64
  rp_avg_ms :: u64
  rp_ram_pct :: u64
  rp_n_routes :: nat
  rp_n_patch :: nat
  rp_n_hops :: nat

definition report_window :: "store \<Rightarrow> metrics \<Rightarrow> metrics \<times> report" where
  "report_window st m =
     (drained m,
      \<lparr>rp_sent = metis_req_sent m,
       rp_routes = metis_resp_total m,
       rp_profit = metis_resp_ok m,
       rp_sw_ok = swap_ix_ok m,
       rp_from_ram = ix_from_ram m,
       rp_from_metis = ix_from_metis m,
       rp_rt_hit = route_template_hit m,
       rp_ht_all = hop_template_all_hit m,
       rp_ht_miss = hop_template_missing m,
       rp_swap_fail = swap_ix_failed m,
       rp_sf_to = swap_ix_timeout m,
       rp_sf_http = swap_ix_http m,
       rp_sf_net = swap_ix_network m,
       rp_sf_parse = swap_ix_parse m,
       rp_q_in = queue_in m,
       rp_stale = dropped_stale m,
       rp_build = tx_build_failed m,
       rp_too_big = tx_too_large m,
       rp_too_locks = dropped_account_locks m,
       rp_calc = calc_done m,
       rp_requeued = rate_requeued m,
       rp_jfail = jito_send_failed m,
       rp_jito = jito_sent m,
       rp_ms_ms = metis_fetch_ms_total m,
       rp_ms_n = metis_fetch_samples m,
       rp_drop_hop = dropped_multi_hop m,
       rp_drop_merge = dropped_merge_fail m,
       rp_drop_no_srv = dropped_no_serve m,
       rp_drop_pool = dropped_same_pool m,
       rp_depth = queue_depth m,
       rp_avg_ms = (if 0 < metis_fetch_samples m then metis_fetch_ms_total m div metis_fetch_samples m else 0),
       rp_ram_pct = (if 0 < swap_ix_ok m then ix_from_ram m * 100 div swap_ix_ok m else 0),
       rp_n_routes = route_count st, rp_n_patch = patchable_route_count st, rp_n_hops = hop_count st\<rparr>)"

end
