(* ===== verification/TokenReports.thy ===== *)
theory TokenReports
  imports HashMaps RustStrings "HOL-Library.Product_Lexorder" "HOL-Library.Multiset"
begin

text \<open>
  \<open>src/src/token_metrics.rs\<close>: per-token counters, their index, the reporter with its
  five-minute windows and thirty-minute accumulator, the report file, and the calendar
  date of the report.
\<close>

subsection \<open>Counters and their index\<close>

record token_stat =
  ts_mint :: string
  q_sent :: u64
  route_ok :: u64
  route_fail :: u64
  profitable :: u64
  not_profitable :: u64

record token_metrics =
  tm_stats :: "token_stat list"
  tm_index :: "(string, nat) hmap"

definition zero_stat :: "string \<Rightarrow> token_stat" where
  "zero_stat mint = \<lparr>ts_mint = mint, q_sent = 0, route_ok = 0, route_fail = 0,
     profitable = 0, not_profitable = 0\<rparr>"

definition new_token_metrics :: "string list \<Rightarrow> token_metrics" where
  "new_token_metrics token_mints =
     (let stats = map zero_stat token_mints
      in \<lparr>tm_stats = stats,
          tm_index = fold (\<lambda>(k, v). hm_insert k v) (zip (map ts_mint stats) [0..<length stats]) []\<rparr>)"

text \<open>\<open>get\<close>: the position of the statistics that the caller then updates.\<close>

definition tm_get :: "token_metrics \<Rightarrow> string \<Rightarrow> nat option" where
  "tm_get tm mint =
     (case hm_get (tm_index tm) mint of
        None \<Rightarrow> None
      | Some i \<Rightarrow> if i < length (tm_stats tm) then Some i else None)"

definition bump_stat :: "nat option \<Rightarrow> (token_stat \<Rightarrow> token_stat) \<Rightarrow> token_metrics \<Rightarrow> token_metrics" where
  "bump_stat ts f tm =
     (case ts of
        None \<Rightarrow> tm
      | Some i \<Rightarrow> tm\<lparr>tm_stats := (tm_stats tm)[i := f (tm_stats tm ! i)]\<rparr>)"

subsection \<open>The reporter\<close>

text \<open>A snapshot has the fields of a statistic.\<close>

type_synonym token_snapshot = token_stat

definition reset_stat :: "token_stat \<Rightarrow> token_stat" where
  "reset_stat s = s\<lparr>q_sent := 0, route_ok := 0, route_fail := 0, profitable := 0, not_profitable := 0\<rparr>"

definition add_stat :: "token_snapshot \<Rightarrow> token_snapshot \<Rightarrow> token_snapshot" where
  "add_stat a s =
     a\<lparr>q_sent := q_sent a + q_sent s, route_ok := route_ok a + route_ok s,
       route_fail := route_fail a + route_fail s, profitable := profitable a + profitable s,
       not_profitable := not_profitable a + not_profitable s\<rparr>"

text \<open>\<open>for (a, s) in acc.iter_mut().zip(snap.iter())\<close>.\<close>

fun add_window :: "token_snapshot list \<Rightarrow> token_snapshot list \<Rightarrow> token_snapshot list" where
  "add_window (a # acc) (s # snap) = add_stat a s # add_window acc snap"
| "add_window acc _ = acc"

record token_reporter =
  tr_acc :: "token_snapshot list"
  tr_windows :: u32

definition new_token_reporter :: "token_metrics \<Rightarrow> token_reporter" where
  "new_token_reporter tm =
     \<lparr>tr_acc = map (\<lambda>s. zero_stat (ts_mint s)) (tm_stats tm), tr_windows = 0\<rparr>"

text \<open>One tick: the counters left behind, the reporter's state, the snapshot written to the
  five-minute file, and the one written to the thirty-minute file, if any.\<close>

definition token_tick ::
  "token_metrics \<Rightarrow> token_reporter
   \<Rightarrow> token_metrics \<times> token_reporter \<times> token_snapshot list \<times> token_snapshot list option" where
  "token_tick tm r =
     (let windows = tr_windows r + 1;
          snap = tm_stats tm;
          acc = add_window (tr_acc r) snap;
          tm = tm\<lparr>tm_stats := map reset_stat (tm_stats tm)\<rparr>
      in if 6 \<le> windows
         then (tm, \<lparr>tr_acc = map reset_stat acc, tr_windows = 0\<rparr>, snap, Some acc)
         else (tm, \<lparr>tr_acc = acc, tr_windows = windows\<rparr>, snap, None))"

subsection \<open>The report file\<close>

text \<open>\<open>sort_by\<close> is stable; the comparison is by profitable, then route_ok, both descending.\<close>

definition sort_snapshots :: "token_snapshot list \<Rightarrow> token_snapshot list" where
  "sort_snapshots snaps = sort_key (\<lambda>r. (- uint (profitable r), - uint (route_ok r))) snaps"

definition token_row :: "token_snapshot \<Rightarrow> string" where
  "token_row r =
     ''\<newline>    {'' @
     ''\"mint\":\"'' @ ts_mint r @ ''\",'' @
     ''\"q_sent\":'' @ show_word (q_sent r) @ '','' @
     ''\"route_ok\":'' @ show_word (route_ok r) @ '','' @
     ''\"route_fail\":'' @ show_word (route_fail r) @ '','' @
     ''\"profitable\":'' @ show_word (profitable r) @ '','' @
     ''\"not_profitable\":'' @ show_word (not_profitable r) @ ''}''"

fun join_rows :: "string list \<Rightarrow> string" where
  "join_rows [] = []"
| "join_rows [r] = r"
| "join_rows (r # rs) = r @ '','' @ join_rows rs"

definition report_json :: "token_snapshot list \<Rightarrow> string \<Rightarrow> u32 \<Rightarrow> string" where
  "report_json snapshots timestamp window_min =
     (let sorted = sort_snapshots snapshots;
          t_q = sum_list (map q_sent sorted);
          t_ok = sum_list (map route_ok sorted);
          t_fail = sum_list (map route_fail sorted);
          t_prof = sum_list (map profitable sorted);
          t_noprof = sum_list (map not_profitable sorted);
          tokens_arr = join_rows (map token_row sorted)
      in ''{\<newline>'' @
         ''\"updated_at\": \"'' @ timestamp @ ''\",\<newline>'' @
         ''\"window_minutes\": '' @ show_word window_min @ '',\<newline>'' @
         ''\"total\": {'' @
         ''\"q_sent\": '' @ show_word t_q @ '','' @
         ''\"route_ok\": '' @ show_word t_ok @ '','' @
         ''\"route_fail\": '' @ show_word t_fail @ '','' @
         ''\"profitable\": '' @ show_word t_prof @ '','' @
         ''\"not_profitable\": '' @ show_word t_noprof @
         ''},\<newline>'' @
         ''\"tokens\": ['' @ tokens_arr @ ''\<newline>  ]\<newline>}\<newline>'')"

subsection \<open>The date of the report\<close>

definition is_leap :: "nat \<Rightarrow> bool" where
  "is_leap y \<longleftrightarrow> (y mod 4 = 0 \<and> y mod 100 \<noteq> 0) \<or> y mod 400 = 0"

text \<open>The first loop: subtract whole years.  Days are below $2^{64} / 86400$, so nothing wraps.\<close>

function strip_years :: "nat \<Rightarrow> nat \<Rightarrow> nat \<times> nat" where
  "strip_years year days =
     (let dy = (if is_leap year then 366 else 365)
      in if days < dy then (year, days) else strip_years (year + 1) (days - dy))"
  by auto
termination
  by (relation "measure snd") (auto split: if_splits)

declare strip_years.simps [simp del]

fun strip_months :: "nat list \<Rightarrow> nat \<Rightarrow> nat \<Rightarrow> nat \<times> nat" where
  "strip_months [] month days = (month, days)"
| "strip_months (dm # dms) month days =
     (if days < dm then (month, days) else strip_months dms (month + 1) (days - dm))"

definition month_days :: "nat \<Rightarrow> nat list" where
  "month_days year =
     (if is_leap year then [31, 29, 31, 30, 31, 30, 31, 31, 30, 31, 30, 31]
      else [31, 28, 31, 30, 31, 30, 31, 31, 30, 31, 30, 31])"

definition epoch_days_to_ymd :: "nat \<Rightarrow> nat \<times> nat \<times> nat" where
  "epoch_days_to_ymd days =
     (let (year, days) = strip_years 1970 days;
          (month, days) = strip_months (month_days year) 1 days
      in (year, month, days + 1))"

text \<open>\<open>{:04}\<close> and \<open>{:02}\<close>.\<close>

definition pad :: "nat \<Rightarrow> nat \<Rightarrow> string" where
  "pad width n = (let ds = show_nat n in replicate (width - length ds) CHR ''0'' @ ds)"

definition now_iso :: "nat \<Rightarrow> string" where
  "now_iso total_secs =
     (let s = total_secs mod 60;
          m = (total_secs div 60) mod 60;
          h = (total_secs div 3600) mod 24;
          (year, month, day) = epoch_days_to_ymd (total_secs div 86400)
      in pad 4 year @ ''-'' @ pad 2 month @ ''-'' @ pad 2 day @ ''T'' @
         pad 2 h @ '':'' @ pad 2 m @ '':'' @ pad 2 s @ ''Z'')"


subsection \<open>The index\<close>

lemma tm_index_new:
  "hm_get (tm_index (new_token_metrics mints)) m = map_of (rev (zip mints [0..<length mints])) m"
  by (simp add: new_token_metrics_def Let_def hm.get_fold_put comp_def zero_stat_def split: option.split)

lemma tm_stats_new [simp]: "tm_stats (new_token_metrics mints) = map zero_stat mints"
  by (simp add: new_token_metrics_def Let_def)

lemma ts_mint_zero [simp]: "ts_mint (zero_stat m) = m"
  by (simp add: zero_stat_def)

lemma map_of_rev_zip_upt:
  "case map_of (rev (zip xs [0..<length xs])) x of
     None \<Rightarrow> x \<notin> set xs
   | Some i \<Rightarrow> i < length xs \<and> xs ! i = x \<and> (\<forall>j. i < j \<and> j < length xs \<longrightarrow> xs ! j \<noteq> x)"
proof (induction xs rule: rev_induct)
  case Nil
  then show ?case by simp
next
  case (snoc y xs)
  then show ?case
    by (auto simp: nth_append less_Suc_eq split: option.splits)
qed

subsection \<open>Adding up windows\<close>

lemma length_add_window [simp]: "length (add_window acc snap) = length acc"
  by (induction acc snap rule: add_window.induct) simp_all

lemma nth_add_window:
  "i < length acc \<Longrightarrow> i < length snap \<Longrightarrow> add_window acc snap ! i = add_stat (acc ! i) (snap ! i)"
proof (induction acc snap arbitrary: i rule: add_window.induct)
  case (1 a acc s snap)
  then show ?case by (cases i) simp_all
qed simp_all

text \<open>Token \<open>i\<close>'s accumulated counters over a list of windows.\<close>

definition sums_of :: "token_snapshot \<Rightarrow> string \<Rightarrow> token_snapshot list \<Rightarrow> bool" where
  "sums_of a mint ws \<longleftrightarrow>
     ts_mint a = mint \<and>
     q_sent a = sum_list (map q_sent ws) \<and>
     route_ok a = sum_list (map route_ok ws) \<and>
     route_fail a = sum_list (map route_fail ws) \<and>
     profitable a = sum_list (map profitable ws) \<and>
     not_profitable a = sum_list (map not_profitable ws)"

lemma sums_of_Nil: "sums_of (reset_stat a) (ts_mint a) []" "sums_of (zero_stat m) m []"
  by (simp_all add: sums_of_def reset_stat_def zero_stat_def)

lemma sums_of_snoc: "sums_of a m ws \<Longrightarrow> sums_of (add_stat a s) m (ws @ [s])"
  by (simp add: sums_of_def add_stat_def)

definition acc_over :: "string list \<Rightarrow> token_metrics list \<Rightarrow> token_snapshot list \<Rightarrow> bool" where
  "acc_over mints tms acc \<longleftrightarrow> length acc = length mints \<and>
     (\<forall>i < length mints. sums_of (acc ! i) (mints ! i) (map (\<lambda>tm. tm_stats tm ! i) tms))"

definition for_mints :: "string list \<Rightarrow> token_metrics \<Rightarrow> bool" where
  "for_mints mints tm \<longleftrightarrow> map ts_mint (tm_stats tm) = mints"

lemma acc_over_snoc:
  assumes "acc_over mints tms acc" and "for_mints mints tm"
  shows "acc_over mints (tms @ [tm]) (add_window acc (tm_stats tm))"
proof -
  have "length (tm_stats tm) = length mints"
    using assms(2) by (auto simp: for_mints_def)
  with assms(1) show ?thesis
    by (simp add: acc_over_def nth_add_window sums_of_snoc)
qed

lemma acc_over_reset:
  assumes "acc_over mints tms acc"
  shows "acc_over mints [] (map reset_stat acc)"
  using assms sums_of_Nil(1) by (auto simp: acc_over_def) (simp add: sums_of_def reset_stat_def)

text \<open>The reporter after the windows \<open>tms\<close>; the pending ones are those since the last
  thirty-minute file.\<close>

definition reporter_after :: "string list \<Rightarrow> token_metrics list \<Rightarrow> token_reporter" where
  "reporter_after mints tms =
     foldl (\<lambda>r tm. fst (snd (token_tick tm r))) (new_token_reporter (new_token_metrics mints)) tms"

definition pending :: "token_metrics list \<Rightarrow> token_metrics list" where
  "pending tms = drop (6 * (length tms div 6)) tms"

lemma length_pending: "length (pending tms) = length tms mod 6"
  by (simp add: pending_def minus_mult_div_eq_mod)

lemma pending_snoc:
  "pending (tms @ [tm]) = (if 6 dvd Suc (length tms) then [] else pending tms @ [tm])"
proof (cases "6 dvd Suc (length tms)")
  case True
  then show ?thesis by (simp add: pending_def)
next
  case False
  then have "Suc (length tms) div 6 = length tms div 6"
    by (metis div_Suc dvd_eq_mod_eq_0)
  with False show ?thesis by (simp add: pending_def)
qed

definition reporter_inv :: "string list \<Rightarrow> token_metrics list \<Rightarrow> token_reporter \<Rightarrow> bool" where
  "reporter_inv mints ws r \<longleftrightarrow>
     acc_over mints ws (tr_acc r) \<and> tr_windows r = of_nat (length ws) \<and> length ws < 6"

lemma reporter_inv_new: "reporter_inv mints [] (new_token_reporter (new_token_metrics mints))"
  by (simp add: reporter_inv_def new_token_reporter_def new_token_metrics_def acc_over_def
      Let_def sums_of_Nil zero_stat_def [of "mints ! i" for i] sums_of_def)

lemma windows_ge_6:
  "n < 6 \<Longrightarrow> (6 \<le> (of_nat n + 1 :: u32)) = (n = 5)"
proof -
  assume "n < 6"
  then have "n \<in> {0, 1, 2, 3, 4, 5}" by auto
  then show ?thesis by (auto simp: word_le_nat_alt)
qed

lemma token_tick_inv:
  assumes "reporter_inv mints ws r" and "for_mints mints tm"
  shows "snd (snd (snd (token_tick tm r))) =
      (if length ws = 5 then Some (add_window (tr_acc r) (tm_stats tm)) else None)"
    and "reporter_inv mints (if length ws = 5 then [] else ws @ [tm]) (fst (snd (token_tick tm r)))"
    and "acc_over mints (ws @ [tm]) (add_window (tr_acc r) (tm_stats tm))"
proof -
  show acc: "acc_over mints (ws @ [tm]) (add_window (tr_acc r) (tm_stats tm))"
    using assms by (simp add: reporter_inv_def acc_over_snoc)
  show "snd (snd (snd (token_tick tm r))) =
      (if length ws = 5 then Some (add_window (tr_acc r) (tm_stats tm)) else None)"
    using assms(1) by (auto simp: token_tick_def Let_def reporter_inv_def windows_ge_6)
  show "reporter_inv mints (if length ws = 5 then [] else ws @ [tm]) (fst (snd (token_tick tm r)))"
    using assms(1) acc acc_over_reset [OF acc]
    by (auto simp: token_tick_def Let_def reporter_inv_def windows_ge_6)
qed

lemma reporter_after_inv:
  assumes "\<And>tm. tm \<in> set tms \<Longrightarrow> for_mints mints tm"
  shows "reporter_inv mints (pending tms) (reporter_after mints tms)"
  using assms
proof (induction tms rule: rev_induct)
  case Nil
  then show ?case by (simp add: pending_def reporter_after_def reporter_inv_new)
next
  case (snoc tm tms)
  then have "reporter_inv mints (pending tms) (reporter_after mints tms)"
    and tm: "for_mints mints tm" by simp_all
  from token_tick_inv(2) [OF this]
  have "reporter_inv mints (if length tms mod 6 = 5 then [] else pending tms @ [tm])
      (reporter_after mints (tms @ [tm]))"
    by (simp add: reporter_after_def length_pending)
  moreover have "6 dvd Suc (length tms) \<longleftrightarrow> length tms mod 6 = 5" by presburger
  ultimately show ?case by (simp add: pending_snoc)
qed


subsection \<open>The calendar\<close>

definition year_len :: "nat \<Rightarrow> nat" where
  "year_len y = (if is_leap y then 366 else 365)"

definition days_before_year :: "nat \<Rightarrow> nat" where
  "days_before_year y = sum_list (map year_len [1970..<y])"

text \<open>The day number of a date of the proleptic Gregorian calendar, counted from 1970-01-01.\<close>

definition civil_days :: "nat \<times> nat \<times> nat \<Rightarrow> nat" where
  "civil_days = (\<lambda>(y, m, d). days_before_year y + sum_list (take (m - 1) (month_days y)) + (d - 1))"

definition valid_date :: "nat \<times> nat \<times> nat \<Rightarrow> bool" where
  "valid_date = (\<lambda>(y, m, d). 1970 \<le> y \<and> 1 \<le> m \<and> m \<le> 12 \<and> 1 \<le> d \<and> d \<le> month_days y ! (m - 1))"

lemma sum_month_days: "sum_list (month_days y) = year_len y"
  by (simp add: month_days_def year_len_def)

lemma length_month_days [simp]: "length (month_days y) = 12"
  by (simp add: month_days_def)

lemma strip_years_spec:
  "strip_years y d = (y', r) \<Longrightarrow>
   y \<le> y' \<and> r < year_len y' \<and> sum_list (map year_len [y..<y']) + r = d"
proof (induction y d arbitrary: y' r rule: strip_years.induct)
  case (1 y d)
  show ?case
  proof (cases "d < year_len y")
    case True
    with 1(2) show ?thesis by (subst (asm) strip_years.simps) (simp add: year_len_def Let_def)
  next
    case False
    with 1(2) have rest: "strip_years (y + 1) (d - year_len y) = (y', r)"
      by (subst (asm) strip_years.simps) (simp add: year_len_def Let_def)
    from 1(1) [OF refl, folded year_len_def, OF False rest]
    have "y + 1 \<le> y' \<and> r < year_len y' \<and>
        sum_list (map year_len [y + 1..<y']) + r = d - year_len y" .
    with False show ?thesis by (auto simp: upt_conv_Cons)
  qed
qed

lemma strip_years_of_days:
  "r < year_len y' \<Longrightarrow> y \<le> y' \<Longrightarrow> strip_years y (sum_list (map year_len [y..<y']) + r) = (y', r)"
proof (induction "y' - y" arbitrary: y)
  case 0
  then show ?case by (subst strip_years.simps) (simp add: year_len_def Let_def)
next
  case (Suc n)
  then have "y < y'" by simp
  then have split: "sum_list (map year_len [y..<y']) = year_len y + sum_list (map year_len [Suc y..<y'])"
    by (simp add: upt_conv_Cons)
  from Suc have "strip_years (Suc y) (sum_list (map year_len [Suc y..<y']) + r) = (y', r)" by simp
  then show ?case
    unfolding split by (subst strip_years.simps) (simp add: year_len_def Let_def)
qed

lemma strip_months_spec:
  "strip_months dms m d = (m', r) \<Longrightarrow> d < sum_list dms \<Longrightarrow>
   m \<le> m' \<and> m' - m < length dms \<and> r < dms ! (m' - m) \<and> sum_list (take (m' - m) dms) + r = d"
proof (induction dms m d rule: strip_months.induct)
  case (2 dm dms m d)
  show ?case
  proof (cases "d < dm")
    case True
    with 2(2) show ?thesis by simp
  next
    case False
    with 2 have "m + 1 \<le> m' \<and> m' - (m + 1) < length dms \<and> r < dms ! (m' - (m + 1)) \<and>
        sum_list (take (m' - (m + 1)) dms) + r = d - dm"
      by simp
    then obtain k where "m' = m + 1 + k" using le_Suc_ex by blast
    with \<open>m + 1 \<le> m' \<and> _\<close> show ?thesis using False by auto
  qed
qed simp

lemma strip_months_of_days:
  "i < length dms \<Longrightarrow> r < dms ! i \<Longrightarrow>
   strip_months dms m (sum_list (take i dms) + r) = (m + i, r)"
proof (induction dms arbitrary: i m)
  case Nil
  then show ?case by simp
next
  case (Cons dm dms)
  then show ?case by (cases i) simp_all
qed

lemma civil_of_epoch: "valid_date (epoch_days_to_ymd n) \<and> civil_days (epoch_days_to_ymd n) = n"
proof -
  obtain y r where y: "strip_years 1970 n = (y, r)" by fastforce
  obtain m r' where m: "strip_months (month_days y) 1 r = (m, r')" by fastforce
  from strip_years_spec [OF y] have Y: "1970 \<le> y" "r < year_len y"
    "days_before_year y + r = n" by (simp_all add: days_before_year_def)
  from strip_months_spec [OF m] Y(2) have M: "1 \<le> m" "m - 1 < 12" "r' < month_days y ! (m - 1)"
    "sum_list (take (m - 1) (month_days y)) + r' = r" by (simp_all add: sum_month_days)
  from y m Y M show ?thesis
    by (simp add: epoch_days_to_ymd_def valid_date_def civil_days_def)
qed

lemma epoch_of_civil: "valid_date ymd \<Longrightarrow> epoch_days_to_ymd (civil_days ymd) = ymd"
proof -
  assume valid: "valid_date ymd"
  obtain y m d where ymd: "ymd = (y, m, d)" by (cases ymd)
  let ?r = "sum_list (take (m - 1) (month_days y)) + (d - 1)"
  from valid ymd have v: "1970 \<le> y" "m - 1 < 12" "d - 1 < month_days y ! (m - 1)" "1 \<le> m" "1 \<le> d"
    by (auto simp: valid_date_def)
  have months: "strip_months (month_days y) 1 ?r = (1 + (m - 1), d - 1)"
    using v by (intro strip_months_of_days) simp_all
  have "?r < sum_list (take (m - 1) (month_days y)) + month_days y ! (m - 1)" using v by simp
  also have "\<dots> = sum_list (take (Suc (m - 1)) (month_days y))"
    using v(2) by (simp add: take_Suc_conv_app_nth)
  also have "\<dots> \<le> sum_list (take (Suc (m - 1)) (month_days y) @ drop (Suc (m - 1)) (month_days y))"
    unfolding sum_list_append by simp
  also have "\<dots> = year_len y" unfolding append_take_drop_id sum_month_days ..
  finally have "strip_years 1970 (days_before_year y + ?r) = (y, ?r)"
    unfolding days_before_year_def by (rule strip_years_of_days) (rule v)
  with months v show ?thesis
    by (simp add: ymd civil_days_def epoch_days_to_ymd_def add.assoc)
qed

subsection \<open>Properties\<close>

text \<open>A token's statistics are found exactly when the token is in the list the metrics were
  made for, and are those of the token's last occurrence in the list, so each token has one
  set of counters even when it is listed twice.\<close>

theorem token_index_correct:
  "case tm_get (new_token_metrics mints) m of
     None \<Rightarrow> m \<notin> set mints
   | Some i \<Rightarrow> i < length mints \<and> ts_mint (tm_stats (new_token_metrics mints) ! i) = m \<and>
       (\<forall>j \<in> {i + 1..<length mints}. mints ! j \<noteq> m)"
  using map_of_rev_zip_upt [where xs = mints and x = m]
  by (auto simp: tm_get_def tm_index_new split: option.splits)

theorem token_index_correct_witness:
  "tm_get (new_token_metrics [''A'', ''B'', ''A'']) ''A'' = Some 2"
  using token_index_correct [where mints = "[''A'', ''B'', ''A'']" and m = "''A''"]
  by (simp add: tm_get_def tm_index_new upt_rec split: option.splits)

text \<open>The thirty-minute file is written on every sixth tick and no other, and it holds, for
  every token, the sums of the counters of exactly the last six five-minute windows.\<close>

theorem thirty_minute_file:
  assumes "\<And>w. w \<in> set (tms @ [tm]) \<Longrightarrow> for_mints mints w"
  shows "case snd (snd (snd (token_tick tm (reporter_after mints tms)))) of
      None \<Rightarrow> \<not> 6 dvd Suc (length tms)
    | Some acc \<Rightarrow> 6 dvd Suc (length tms) \<and>
        acc_over mints (drop (length tms - 5) (tms @ [tm])) acc"
proof -
  have tm: "for_mints mints tm" using assms by simp
  have inv: "reporter_inv mints (pending tms) (reporter_after mints tms)"
    using assms by (intro reporter_after_inv) simp
  have six: "6 dvd Suc (length tms) \<longleftrightarrow> length tms mod 6 = 5" by presburger
  have "pending tms @ [tm] = drop (length tms - 5) (tms @ [tm])" if "length tms mod 6 = 5"
  proof -
    have "6 * (length tms div 6) = length tms - 5" using that by presburger
    with that show ?thesis by (simp add: pending_def)
  qed
  with token_tick_inv [OF inv tm] six show ?thesis by (auto simp: length_pending)
qed

lemma for_mints_new: "for_mints mints (new_token_metrics mints)"
  by (simp add: for_mints_def new_token_metrics_def zero_stat_def Let_def comp_def)

theorem thirty_minute_file_witness:
  "case snd (snd (snd (token_tick (new_token_metrics [''A'']) (reporter_after [''A'']
      (replicate 5 (new_token_metrics [''A''])))))) of
      None \<Rightarrow> \<not> 6 dvd Suc 5
    | Some acc \<Rightarrow> 6 dvd Suc 5 \<and> acc_over [''A''] (drop 0
        (replicate 5 (new_token_metrics [''A'']) @ [new_token_metrics [''A'']])) acc"
proof -
  have "for_mints [''A''] w"
    if "w \<in> set (replicate 5 (new_token_metrics [''A'']) @ [new_token_metrics [''A'']])" for w
    using that for_mints_new by (simp only: set_append set_replicate_conv_if) (auto split: if_splits)
  from thirty_minute_file [where tms = "replicate 5 (new_token_metrics [''A''])", OF this]
  show ?thesis by (simp only: length_replicate diff_self_eq_0)
qed

text \<open>The report lists every snapshot once, ordered by profitable and then by route_ok, both
  descending, and keeps the order of the token list among equals.\<close>

theorem report_order:
  "mset (sort_snapshots snaps) = mset snaps \<and>
   sorted_wrt (\<lambda>a b. profitable b < profitable a \<or>
     (profitable b = profitable a \<and> route_ok b \<le> route_ok a)) (sort_snapshots snaps) \<and>
   filter (\<lambda>r. profitable r = p \<and> route_ok r = k) (sort_snapshots snaps) =
     filter (\<lambda>r. profitable r = p \<and> route_ok r = k) snaps"
proof -
  let ?key = "\<lambda>r :: token_snapshot. (- uint (profitable r), - uint (route_ok r))"
  have "sorted_wrt (\<lambda>a b. ?key a \<le> ?key b) (sort_snapshots snaps)"
    using sorted_sort_key [of ?key snaps] by (simp add: sort_snapshots_def sorted_map)
  then have "sorted_wrt (\<lambda>a b. profitable b < profitable a \<or>
     (profitable b = profitable a \<and> route_ok b \<le> route_ok a)) (sort_snapshots snaps)"
    by (rule sorted_wrt_mono_rel [rotated])
      (auto simp: word_less_def word_le_def word_uint_eq_iff)
  moreover have "(?key r = (- uint p, - uint k)) = (profitable r = p \<and> route_ok r = k)" for r
    by (auto simp: word_uint_eq_iff)
  moreover have "filter (\<lambda>r. ?key r = (- uint p, - uint k)) (sort_snapshots snaps) =
      filter (\<lambda>r. ?key r = (- uint p, - uint k)) snaps"
    unfolding sort_snapshots_def by (rule sort_key_stable)
  ultimately show ?thesis by (simp add: sort_snapshots_def)
qed



lemma now_iso_epoch: "now_iso 0 = ''1970-01-01T00:00:00Z''"
  by (simp add: now_iso_def epoch_days_to_ymd_def strip_years.simps is_leap_def month_days_def
      pad_def show_nat.simps digit_char_def char_of_def bit_iff_odd)

end
