(* ===== verification/StoreLaws.thy ===== *)
theory StoreLaws
  imports TemplateStore
begin

text \<open>
  What \<open>TemplateStore\<close> promises its client, the scanner: reads after writes of routes and
  hops, the capacity of the route segments, and where served instructions come from.  The
  locale \<open>route_cache\<close> is the scanner's view of the store; it is interpreted on the
  operations of theory \<open>TemplateStore\<close>.
\<close>

subsection \<open>Reads after operations\<close>

lemma get_route_result:
  "snd (get_route sig g) =
     (case hm_get (routes_hot g) sig of
        Some t \<Rightarrow> Some t
      | None \<Rightarrow> map_option bump_hit (hm_get (routes_cold g) sig))"
  by (cases rule: get_route_cases [of g sig])
    (auto simp: lookup_route_def split: option.splits)

lemma lookup_after_get_same:
  "lookup_route (fst (get_route sig g)) sig = snd (get_route sig g)"
proof (cases rule: get_route_cases [of g sig])
  case (cold t)
  then show ?thesis by (simp add: lookup_push_hot_route)
next
  case stay
  then show ?thesis by (auto simp: lookup_route_def split: option.splits)
qed

lemma lookup_after_get_other:
  assumes "segments_ok g" and "sig' \<noteq> sig"
  shows "lookup_route (fst (get_route sig g)) sig' =
    (if hm_get (routes_hot g) sig = None \<and> hm_get (routes_cold g) sig \<noteq> None \<and> rotates g
     then hm_get (routes_hot g) sig' else lookup_route g sig')"
proof (cases rule: get_route_cases [of g sig])
  case (cold t)
  have "rotates (g\<lparr>routes_cold := hm_remove sig (routes_cold g)\<rparr>) = rotates g"
    by (simp add: rotates_def)
  with cold assms show ?thesis by (simp add: lookup_push_hot_route lookup_drop_cold)
next
  case stay
  then show ?thesis by auto
qed

text \<open>The instructions a template can serve without patching.\<close>

definition variant :: "store \<Rightarrow> u128 \<Rightarrow> u64 \<Rightarrow> swap_instructions_response option" where
  "variant g sig amount = Option.bind (lookup_route g sig) (\<lambda>t. hm_get (rt_amount_variants t) amount)"

lemma variants_bump [simp]: "rt_amount_variants (bump_hit t) = rt_amount_variants t"
  by (simp add: bump_hit_def)

lemma bind_map_bump [simp]:
  "Option.bind (map_option bump_hit x) (\<lambda>t. hm_get (rt_amount_variants t) a) =
     Option.bind x (\<lambda>t. hm_get (rt_amount_variants t) a)"
  by (cases x) simp_all

lemma variant_get_route:
  "variant (fst (get_route sig g)) sig a = variant g sig a"
  unfolding variant_def lookup_after_get_same get_route_result
  by (simp add: lookup_route_def split: option.split)

lemma lookup_insert_route:
  "lookup_route (insert_route dec sig r a q plan g) sig =
     Some (case lookup_route g sig of
             None \<Rightarrow> new_template dec sig r a q
           | Some t \<Rightarrow> see_again a r t)"
proof -
  consider (hot) t where "hm_get (routes_hot g) sig = Some t"
    | (cold) t where "hm_get (routes_hot g) sig = None" "hm_get (routes_cold g) sig = Some t"
    | (new) "hm_get (routes_hot g) sig = None" "hm_get (routes_cold g) sig = None"
    by (cases "hm_get (routes_hot g) sig"; cases "hm_get (routes_cold g) sig") auto
  then show ?thesis
  proof cases
    case hot
    then show ?thesis
      by (simp add: insert_route_def hm_contains_def lookup_modify_hot lookup_route_def)
  next
    case cold
    then show ?thesis
      by (simp add: insert_route_def hm_contains_def lookup_modify_cold lookup_route_def)
  next
    case new
    then show ?thesis
      by (simp add: insert_route_def hm_contains_def Let_def lookup_push_hot_route
          lookup_route_def [of g] split: option.split)
  qed
qed

lemma variant_insert_route:
  "variant (insert_route dec sig r a q plan g) sig a =
     Some (case variant g sig a of None \<Rightarrow> r | Some v \<Rightarrow> v)"
  by (auto simp: variant_def lookup_insert_route new_template_def see_again_def Let_def
      split: option.splits)

lemma variant_record_hops [simp]: "variant (record_hops plan slot g) sig a = variant g sig a"
  by (simp add: variant_def)

lemma variant_record_route_hit [simp]: "variant (record_route_hit s g) sig a = variant g sig a"
  by (simp add: variant_def record_route_hit_def lookup_modify_hot lookup_modify_cold)

lemma serve_get_route:
  assumes "variant g sig a = Some v"
  shows "\<exists>t. snd (get_route sig g) = Some t \<and> serve_route enc dec t a q = Ok v"
proof -
  from assms variant_get_route [of sig g a]
  have "Option.bind (snd (get_route sig g)) (\<lambda>t. hm_get (rt_amount_variants t) a) = Some v"
    by (simp add: variant_def lookup_after_get_same)
  then show ?thesis
    by (cases "snd (get_route sig g)") (auto simp: serve_route_def)
qed

subsection \<open>The scanner's view\<close>

locale route_cache =
  fixes get :: "u128 \<Rightarrow> 's \<Rightarrow> 's \<times> route_template option"
    and put :: "u128 \<Rightarrow> swap_instructions_response \<Rightarrow> u64 \<Rightarrow> u64 \<Rightarrow> json \<Rightarrow> 's \<Rightarrow> 's"
    and note_hops :: "json \<Rightarrow> u64 option \<Rightarrow> 's \<Rightarrow> 's"
    and cached :: "'s \<Rightarrow> u128 \<Rightarrow> u64 \<Rightarrow> swap_instructions_response option"
    and serve :: "route_template \<Rightarrow> u64 \<Rightarrow> u64 \<Rightarrow> (unit, swap_instructions_response) outcome"
  assumes cached_put:
      "cached (put sig r a q plan s) sig a = Some (case cached s sig a of None \<Rightarrow> r | Some v \<Rightarrow> v)"
    and cached_note: "cached (note_hops plan slot s) sig a = cached s sig a"
    and cached_get: "cached (fst (get sig s)) sig a = cached s sig a"
    and get_serves:
      "cached s sig a = Some v \<Longrightarrow> \<exists>t. snd (get sig s) = Some t \<and> serve t a q = Ok v"
begin

text \<open>What was stored for a route and amount is served for it from then on.\<close>

lemma remembers:
  assumes "cached s sig a = None"
  shows "\<exists>t. snd (get sig (note_hops plan slot (put sig r a q plan s))) = Some t \<and>
    serve t a q' = Ok r"
  using assms get_serves cached_put cached_note by simp

lemma remembers_again:
  assumes "cached s sig a = Some v"
  shows "\<exists>t. snd (get sig (fst (get sig (note_hops plan slot (put sig r a q plan s))))) = Some t \<and>
    serve t a q' = Ok v"
  using assms get_serves cached_put cached_note cached_get by simp

end

interpretation rc: route_cache get_route "insert_route dec" record_hops variant "serve_route enc dec"
  for enc dec
  by unfold_locales (simp_all add: variant_insert_route variant_get_route serve_get_route)

subsection \<open>Hops\<close>

lemma fold_count: "fold (\<lambda>x n. if P x then n else n + 1) xs m = m + length (filter (\<lambda>x. \<not> P x) xs)"
  for m :: nat
  by (induction xs arbitrary: m) auto

lemma check_hops_count:
  "check_hops plan g =
     (let missing = length (filter (\<lambda>h. \<not> hop_seen g h) (plan_hops plan)) in (missing = 0, missing))"
  by (simp add: check_hops_def plan_hops_def fold_count Let_def split: option.splits)

lemma hop_seen_record_hop:
  "hop_seen (record_hop slot h g) h' \<longleftrightarrow>
     hop_seen g h' \<or> (hop_key_of h' \<noteq> None \<and> hop_key_of h = hop_key_of h')"
  by (auto simp: hop_seen_def record_hop_def hm_contains_def split: option.splits if_splits)

lemma hop_seen_fold_record:
  "hop_seen (fold (record_hop slot) hs g) h' \<longleftrightarrow>
     hop_seen g h' \<or> (hop_key_of h' \<noteq> None \<and> (\<exists>h \<in> set hs. hop_key_of h = hop_key_of h'))"
  by (induction hs arbitrary: g) (auto simp: hop_seen_record_hop)

lemma record_hops_fold: "record_hops plan slot g = fold (record_hop slot) (plan_hops plan) g"
  by (simp add: record_hops_def plan_hops_def split: option.splits)

definition seen_count :: "store \<Rightarrow> hop_key \<Rightarrow> u64" where
  "seen_count g k = (case hm_get (hops g) k of None \<Rightarrow> 0 | Some t \<Rightarrow> ht_seen_count t)"

lemma seen_count_record_hop:
  "seen_count (record_hop slot h g) k =
     seen_count g k + (if hop_key_of h = Some k then 1 else 0)"
  by (auto simp: seen_count_def record_hop_def new_hop_template_def split: option.splits)

lemma seen_count_fold:
  "seen_count (fold (record_hop slot) hs g) k =
     seen_count g k + of_nat (length (filter (\<lambda>h. hop_key_of h = Some k) hs))"
  by (induction hs arbitrary: g) (simp_all add: seen_count_record_hop)

subsection \<open>Histories\<close>

datatype store_op =
    OpGet u128
  | OpHit u128
  | OpInsert u128 swap_instructions_response u64 u64 json
  | OpGetHops json
  | OpRecord json "u64 option"

fun run_op :: "decoder \<Rightarrow> store_op \<Rightarrow> store \<Rightarrow> store" where
  "run_op dec (OpGet sig) g = fst (get_route sig g)"
| "run_op dec (OpHit sig) g = record_route_hit sig g"
| "run_op dec (OpInsert sig r a q plan) g = insert_route dec sig r a q plan g"
| "run_op dec (OpGetHops plan) g = fst (get_route_for_hops plan g)"
| "run_op dec (OpRecord plan slot) g = record_hops plan slot g"

definition run_ops :: "decoder \<Rightarrow> store_op list \<Rightarrow> store" where
  "run_ops dec ops = fold (run_op dec) ops new_store"

lemma run_ops_snoc: "run_ops dec (ops @ [oper]) = run_op dec oper (run_ops dec ops)"
  by (simp add: run_ops_def)

lemma run_op_keeps:
  assumes "store_inv dec g"
  shows "store_inv dec (run_op dec oper g)"
    and "within_cap g \<Longrightarrow> within_cap (run_op dec oper g)"
proof -
  have seg: "segments_ok g" using assms by (simp add: store_inv_def)
  show "store_inv dec (run_op dec oper g)"
    using assms by (cases oper) (simp_all add: store_keeps)
  show "within_cap (run_op dec oper g)" if "within_cap g"
    using seg that by (cases oper) (simp_all add: store_keeps)
qed

lemma run_ops_inv: "store_inv dec (run_ops dec ops) \<and> within_cap (run_ops dec ops)"
  by (induction ops rule: rev_induct)
    (simp_all add: run_ops_def [of _ "[]"] run_ops_snoc run_op_keeps)

text \<open>Every instruction a template holds was stored for that route.\<close>

definition genuine :: "store_op set \<Rightarrow> u128 \<Rightarrow> route_template \<Rightarrow> bool" where
  "genuine H sig t \<longleftrightarrow>
     (\<exists>q plan. OpInsert sig (rt_swap_ixs t) (rt_template_in_amount t) q plan \<in> H) \<and>
     (\<forall>a v. hm_get (rt_amount_variants t) a = Some v \<longrightarrow>
        (\<exists>q plan. OpInsert sig v a q plan \<in> H))"

definition all_genuine :: "store_op set \<Rightarrow> store \<Rightarrow> bool" where
  "all_genuine H g \<longleftrightarrow> (\<forall>sig t. lookup_route g sig = Some t \<longrightarrow> genuine H sig t)"

lemma genuine_bump [simp]: "genuine H sig (bump_hit t) = genuine H sig t"
  by (simp add: genuine_def bump_hit_def)

lemma genuine_mono: "genuine H sig t \<Longrightarrow> H \<subseteq> H' \<Longrightarrow> genuine H' sig t"
  unfolding genuine_def by blast

lemma all_genuine_mono: "all_genuine H g \<Longrightarrow> H \<subseteq> H' \<Longrightarrow> all_genuine H' g"
  unfolding all_genuine_def using genuine_mono by blast

lemma all_genuine_get:
  assumes "segments_ok g" and "all_genuine H g"
  shows "all_genuine H (fst (get_route sig g))"
  unfolding all_genuine_def
proof (intro allI impI)
  fix sig' t assume t: "lookup_route (fst (get_route sig g)) sig' = Some t"
  show "genuine H sig' t"
  proof (cases "sig' = sig")
    case True
    with t have "snd (get_route sig g) = Some t" by (simp add: lookup_after_get_same)
    then obtain t0 where "lookup_route g sig = Some t0" "t = t0 \<or> t = bump_hit t0"
      by (auto simp: get_route_result lookup_route_def split: option.splits)
    with True assms(2) show ?thesis by (auto simp: all_genuine_def)
  next
    case False
    with t assms show ?thesis
      by (auto simp: lookup_after_get_other all_genuine_def dest: lookup_hot split: if_splits)
  qed
qed

lemma all_genuine_hit: "all_genuine H g \<Longrightarrow> all_genuine H (record_route_hit sig g)"
  by (auto simp: all_genuine_def record_route_hit_def lookup_modify_hot lookup_modify_cold
      split: if_splits)

lemma genuine_see_again:
  "genuine H sig t \<Longrightarrow> OpInsert sig r a q plan \<in> H \<Longrightarrow> genuine H sig (see_again a r t)"
  by (auto simp: genuine_def see_again_def split: if_splits)

lemma genuine_new: "OpInsert sig r a q plan \<in> H \<Longrightarrow> genuine H sig (new_template dec sig r a q)"
  by (auto simp: genuine_def new_template_def Let_def split: if_splits)

lemma lookup_insert_other:
  assumes "sig' \<noteq> sig" and "lookup_route (insert_route dec sig r a q plan g) sig' = Some t"
  shows "lookup_route g sig' = Some t"
  using assms
  by (auto simp: insert_route_def Let_def lookup_modify_hot lookup_modify_cold
      lookup_push_hot_route dest: lookup_hot split: if_splits option.splits)

lemma all_genuine_insert:
  assumes "all_genuine H g" and "OpInsert sig r a q plan \<in> H"
  shows "all_genuine H (insert_route dec sig r a q plan g)"
  unfolding all_genuine_def
proof (intro allI impI)
  fix sig' t assume t: "lookup_route (insert_route dec sig r a q plan g) sig' = Some t"
  show "genuine H sig' t"
  proof (cases "sig' = sig")
    case True
    with t assms show ?thesis
      by (auto simp: lookup_insert_route all_genuine_def intro: genuine_see_again genuine_new
          split: option.splits)
  next
    case False
    with t assms show ?thesis by (auto simp: all_genuine_def dest: lookup_insert_other)
  qed
qed

lemma run_op_genuine:
  assumes "segments_ok g" and "all_genuine H g"
  shows "all_genuine (insert oper H) (run_op dec oper g)"
proof -
  have H: "all_genuine (insert oper H) g" using assms(2) by (rule all_genuine_mono) auto
  show ?thesis
  proof (cases oper)
    case (OpGetHops plan)
    then show ?thesis
      using H assms(1) get_route_for_hops_cases [of plan g] all_genuine_get by auto
  next
    case (OpRecord plan slot)
    then show ?thesis using H by (simp add: all_genuine_def)
  qed (use H assms(1) in \<open>simp_all add: all_genuine_get all_genuine_hit all_genuine_insert\<close>)
qed

lemma run_ops_genuine: "all_genuine (set ops) (run_ops dec ops)"
proof (induction ops rule: rev_induct)
  case Nil
  then show ?case by (simp add: run_ops_def all_genuine_def new_store_def lookup_route_def)
next
  case (snoc oper ops)
  have "segments_ok (run_ops dec ops)" using run_ops_inv by (simp add: store_inv_def)
  with snoc run_op_genuine [of "run_ops dec ops" "set ops" oper dec] show ?case
    by (simp add: run_ops_snoc)
qed


subsection \<open>Survival of recently used routes\<close>

text \<open>How many further operations are certain not to evict a route.\<close>

definition life :: "store \<Rightarrow> u128 \<Rightarrow> nat" where
  "life g sig =
     (if hm_contains (routes_hot g) sig then 2 * ROUTE_SEG_CAP - length (routes_hot g)
      else if hm_contains (routes_cold g) sig then ROUTE_SEG_CAP - length (routes_hot g)
      else 0)"

lemma life_pos_lookup: "0 < life g sig \<Longrightarrow> lookup_route g sig \<noteq> None"
  by (auto simp: life_def lookup_route_def hm_contains_def split: if_splits option.splits)

lemma life_push_other:
  assumes "within_cap g" and "sig' \<noteq> sig"
  shows "life g sig' \<le> Suc (life (push_hot_route sig t g) sig')"
  using assms
  by (auto simp: life_def push_hot_route_def Let_def within_cap_def hm_contains_def
      length_hm_insert)

lemma life_push_same:
  assumes "within_cap g" and "hm_get (routes_hot g) sig = None"
  shows "life g sig \<le> Suc (life (push_hot_route sig t g) sig)"
  using assms
  by (auto simp: life_def push_hot_route_def Let_def within_cap_def hm_contains_def
      length_hm_insert)

lemma life_drop_cold:
  assumes "segments_ok g" and "sig' \<noteq> sig"
  shows "life (g\<lparr>routes_cold := hm_remove sig (routes_cold g)\<rparr>) sig' = life g sig'"
  using assms by (simp add: life_def hm_contains_def segments_ok_def hm.get_del)

lemma within_cap_drop_cold:
  "segments_ok g \<Longrightarrow> within_cap g \<Longrightarrow>
   within_cap (g\<lparr>routes_cold := hm_remove sig (routes_cold g)\<rparr>)"
  by (auto simp: within_cap_def segments_ok_def length_hm_remove)

lemma life_same_cold:
  assumes "within_cap g" and "hm_get (routes_hot g) sig = None"
  shows "life g sig \<le>
    Suc (life (push_hot_route sig t (g\<lparr>routes_cold := hm_remove sig (routes_cold g)\<rparr>)) sig)"
  using assms
  by (auto simp: life_def push_hot_route_def Let_def within_cap_def hm_contains_def
      length_hm_insert)

lemma life_get_route:
  assumes "segments_ok g" and "within_cap g"
  shows "life g sig' \<le> Suc (life (fst (get_route sig g)) sig')"
proof (cases rule: get_route_cases [of g sig])
  case (cold t)
  let ?g = "g\<lparr>routes_cold := hm_remove sig (routes_cold g)\<rparr>"
  show ?thesis
  proof (cases "sig' = sig")
    case True
    with cold assms show ?thesis by (simp add: life_same_cold)
  next
    case False
    have "life g sig' = life ?g sig'" using assms(1) False by (simp add: life_drop_cold)
    also have "\<dots> \<le> Suc (life (push_hot_route sig (bump_hit t) ?g) sig')"
      using within_cap_drop_cold [OF assms] False by (rule life_push_other)
    finally show ?thesis using cold by simp
  qed
qed simp

lemma life_index [simp]: "life (g\<lparr>hop_pair_index := m\<rparr>) sig = life g sig"
  by (simp add: life_def)

lemma life_modify [simp]:
  "life (g\<lparr>routes_hot := hm_modify k f (routes_hot g)\<rparr>) sig = life g sig"
  "life (g\<lparr>routes_cold := hm_modify k f (routes_cold g)\<rparr>) sig = life g sig"
  by (auto simp: life_def hm_contains_def)

lemma life_insert_route:
  assumes "within_cap g"
  shows "life g sig' \<le> Suc (life (insert_route dec sig r a q plan g) sig')"
proof (cases "hm_contains (routes_hot g) sig \<or> hm_contains (routes_cold g) sig")
  case True
  then show ?thesis by (auto simp: insert_route_def)
next
  case False
  then have "hm_get (routes_hot g) sig = None" by (simp add: hm_contains_def)
  then have "life g sig' \<le> Suc (life (push_hot_route sig (new_template dec sig r a q) g) sig')"
    using life_push_other [OF assms] life_push_same [OF assms] by (cases "sig' = sig") simp_all
  with False show ?thesis by (simp add: insert_route_def Let_def split: option.split)
qed

lemma life_run_op:
  assumes "segments_ok g" and "within_cap g"
  shows "life g sig \<le> Suc (life (run_op dec oper g) sig)"
proof (cases oper)
  case (OpGetHops plan)
  with assms get_route_for_hops_cases [of plan g] life_get_route show ?thesis by fastforce
next
  case (OpRecord plan slot)
  then show ?thesis by (simp add: life_def frame_simps)
next
  case (OpHit s)
  then show ?thesis by (simp add: record_route_hit_def)
qed (use assms in \<open>simp_all add: life_get_route life_insert_route\<close>)

lemma life_fold:
  assumes "store_inv dec g" and "within_cap g"
  shows "life g sig \<le> life (fold (run_op dec) ops g) sig + length ops"
  using assms
proof (induction ops arbitrary: g)
  case Nil
  then show ?case by simp
next
  case (Cons oper ops)
  have "life g sig \<le> Suc (life (run_op dec oper g) sig)"
    using Cons.prems by (intro life_run_op) (simp_all add: store_inv_def)
  also have "life (run_op dec oper g) sig \<le>
      life (fold (run_op dec) ops (run_op dec oper g)) sig + length ops"
    using Cons.prems by (intro Cons.IH run_op_keeps)
  finally show ?case by simp
qed

subsection \<open>Properties\<close>

text \<open>Starting from an empty store, no sequence of lookups, hits, insertions and recordings
  makes the two route segments hold more than twice the segment capacity.\<close>

theorem store_capacity: "route_count (run_ops dec ops) \<le> 2 * ROUTE_SEG_CAP"
  using run_ops_inv [of dec ops] by (simp add: route_count_def within_cap_def)





text \<open>C10: Two-generation eviction never drops a recently used route: a route that is in the hot
  segment (as after it was inserted or looked up) can still be found after any sequence of
  fewer than \<open>ROUTE_SEG_CAP\<close> further operations.\<close>

theorem recently_used_survives:
  assumes "store_inv dec g" and "within_cap g" and "hm_contains (routes_hot g) sig"
    and "length ops < ROUTE_SEG_CAP"
  shows "lookup_route (fold (run_op dec) ops g) sig \<noteq> None"
proof -
  have "ROUTE_SEG_CAP \<le> life g sig"
    using assms(2,3) by (auto simp: life_def within_cap_def)
  also have "\<dots> \<le> life (fold (run_op dec) ops g) sig + length ops"
    using assms(1,2) by (rule life_fold)
  finally show ?thesis using assms(4) by (intro life_pos_lookup) simp
qed

theorem recently_used_survives_witness:
  "lookup_route (fold (run_op plain_dec) [OpGet 8, OpInsert 9 (sample_swap ''d'') 1 2 JNull]
     (run_ops plain_dec [OpInsert 7 (sample_swap ''d'') 100 200 JNull])) 7 \<noteq> None"
proof (rule recently_used_survives)
  let ?g = "run_ops plain_dec [OpInsert 7 (sample_swap ''d'') 100 200 JNull]"
  show "store_inv plain_dec ?g" "within_cap ?g" using run_ops_inv by auto
  show "hm_contains (routes_hot ?g) 7"
    by (simp add: run_ops_def new_store_def insert_route_def hm_contains_def pair_key_def
        push_hot_route_def ROUTE_SEG_CAP_def)
  show "length [OpGet 8, OpInsert 9 (sample_swap ''d'') 1 2 JNull] < ROUTE_SEG_CAP"
    by (simp add: ROUTE_SEG_CAP_def)
qed

text \<open>Once the instructions of a route have been stored for an amount, the next lookup of
  that route succeeds and serves exactly those instructions for that amount, whatever the
  quote's output is, also after the plan's hops were recorded.\<close>

theorem inserted_route_is_served:
  assumes "variant g sig a = None"
  shows "\<exists>t. snd (get_route sig (record_hops plan slot (insert_route dec sig r a q plan g))) = Some t \<and>
    serve_route enc dec t a q' = Ok r"
  using assms by (rule rc.remembers)

theorem inserted_route_is_served_witness:
  "\<exists>t. snd (get_route 7 (record_hops JNull None
      (insert_route plain_dec 7 (sample_swap ''d'') 100 200 JNull new_store))) = Some t \<and>
    serve_route plain_enc plain_dec t 100 999 = Ok (sample_swap ''d'')"
  by (rule inserted_route_is_served)
    (simp add: variant_def lookup_route_def new_store_def)

text \<open>After a plan's hops are recorded, checking the same plan reports as missing exactly the
  hops that have no well-formed key (those \<open>from_swap_info\<close> rejects); when every hop has a
  key the plan is a complete hit.\<close>

theorem recorded_hops_are_seen:
  "check_hops plan (record_hops plan slot g) =
     (let n = length (filter (\<lambda>h. hop_key_of h = None) (plan_hops plan)) in (n = 0, n))"
proof -
  have "(\<not> hop_seen (record_hops plan slot g) h) = (hop_key_of h = None)"
    if "h \<in> set (plan_hops plan)" for h
    using that by (auto simp: record_hops_fold hop_seen_fold_record)
      (auto simp: hop_seen_def split: option.splits)
  then have "filter (\<lambda>h. \<not> hop_seen (record_hops plan slot g) h) (plan_hops plan) =
      filter (\<lambda>h. hop_key_of h = None) (plan_hops plan)"
    by (rule filter_cong [OF refl])
  then show ?thesis by (simp only: check_hops_count)
qed

text \<open>Recording a plan adds to each hop's \<open>seen_count\<close> the number of times the hop occurs in
  the plan (as a 64-bit counter), and touches no route.\<close>

theorem record_hops_counts:
  "seen_count (record_hops plan slot g) k =
     seen_count g k + of_nat (length (filter (\<lambda>h. hop_key_of h = Some k) (plan_hops plan))) \<and>
   lookup_route (record_hops plan slot g) sig = lookup_route g sig"
  by (simp add: seen_count_fold [of slot "plan_hops plan" g k, folded record_hops_fold])

text \<open>An index entry is never replaced: when the route it names has been evicted, the second
  tier answers nothing for that pair, although the pair's new route is in the store.\<close>

lemma stale_index_blocks:
  assumes "pair_key plan = Some k" and "hm_get (hop_pair_index g) k = Some old"
    and "lookup_route g old = None" and "lookup_route g sig = None" and "old \<noteq> sig"
  shows "snd (get_route_for_hops plan (insert_route dec sig r a q plan g)) = None"
proof -
  let ?g = "push_hot_route sig (new_template dec sig r a q) g"
  have new: "\<not> hm_contains (routes_hot g) sig" "\<not> hm_contains (routes_cold g) sig"
    and old: "hm_get (routes_hot g) old = None"
    using assms(3,4) by (auto simp: lookup_route_def hm_contains_def split: option.splits)
  have g': "insert_route dec sig r a q plan g =
      ?g\<lparr>hop_pair_index := hm_or_insert k sig (hop_pair_index ?g)\<rparr>"
    using new assms(1) by (simp add: insert_route_def Let_def)
  have idx: "hm_get (hop_pair_index (insert_route dec sig r a q plan g)) k = Some old"
    using assms(2) by (simp add: g' frame_simps)
  have "lookup_route (insert_route dec sig r a q plan g) old = None"
    using assms(3,5) old by (simp add: g' lookup_push_hot_route)
  then have "snd (get_route old (insert_route dec sig r a q plan g)) = None"
    by (auto simp: get_route_result lookup_route_def split: option.splits)
  with idx assms(1) show ?thesis by (simp add: get_route_for_hops_def)
qed

end
