(* ===== verification/TemplateDisk.thy ===== *)
theory TemplateDisk
  imports StoreLaws
begin

text \<open>
  Disk persistence of \<open>src/src/template_cache.rs\<close>: \<open>routes.json\<close> and one hop file per DEX
  under the cache directory.  Files live in a map from paths to contents; the JSON serialiser is a
  parameter, as are the faults of the file system: a write that leaves a partial file, or
  a rename that does not happen.
\<close>

subsection \<open>Files\<close>

type_synonym 't fs = "(string, 't) hmap"

record 't io_faults =
  partial_write :: "string \<Rightarrow> 't option"
  rename_fails :: "string \<Rightarrow> bool"

definition no_faults :: "'t io_faults" where
  "no_faults = \<lparr>partial_write = (\<lambda>_. None), rename_fails = (\<lambda>_. False)\<rparr>"

text \<open>\<open>if fs::write(&tmp, json).is_ok() { let _ = fs::rename(&tmp, &path); }\<close>\<close>

definition write_rename :: "'t io_faults \<Rightarrow> string \<Rightarrow> 't \<Rightarrow> 't fs \<Rightarrow> 't fs" where
  "write_rename io path text fs =
     (let tmp = path @ ''.tmp'' in
      case partial_write io tmp of
        Some part \<Rightarrow> hm_insert tmp part fs
      | None \<Rightarrow>
          (let fs = hm_insert tmp text fs
           in if rename_fails io path then fs
              else hm_insert path text (hm_remove tmp fs)))"

text \<open>The entries of a directory, and \<open>Path::extension\<close> of a file name.\<close>

definition dir_entries :: "string \<Rightarrow> 't fs \<Rightarrow> (string \<times> 't) list" where
  "dir_entries dir fs =
     map (\<lambda>(p, t). (drop (length dir + 1) p, t))
       (filter (\<lambda>(p, _). take (length dir + 1) p = dir @ ''/'' \<and>
                         CHR ''/'' \<notin> set (drop (length dir + 1) p)) fs)"

definition extension :: "string \<Rightarrow> string option" where
  "extension name =
     (let rest = dropWhile (\<lambda>c. c \<noteq> CHR ''.'') (rev name) in
      if name = ''..'' \<or> length rest \<le> 1 then None
      else Some (rev (takeWhile (\<lambda>c. c \<noteq> CHR ''.'') (rev name))))"

definition BASE_DIR :: string where
  "BASE_DIR = ''/root/c/cache''"

definition routes_path :: string where
  "routes_path = BASE_DIR @ ''/routes.json''"

definition hops_dir :: string where
  "hops_dir = BASE_DIR @ ''/hops''"

subsection \<open>Disk formats\<close>

record route_record =
  rr_sig :: string
  rr_swap_ixs :: swap_instructions_response
  rr_template_in_amount :: u64
  rr_template_quoted_out :: u64
  rr_in_amount_offset :: "nat option"
  rr_quoted_out_offset :: "nat option"
  rr_seen_count :: u64
  rr_hit_count :: u64

record route_file =
  rf_schema_version :: u32
  rf_routes :: "route_record list"
  rf_hop_pairs :: "(string, string) hmap"

record dex_hop_file =
  hf_schema_version :: u32
  hf_dex :: dex_kind
  hf_templates :: "(string, hop_template) hmap"

definition from_template :: "route_template \<Rightarrow> route_record" where
  "from_template t =
     \<lparr>rr_sig = show_word (rt_route_signature t), rr_swap_ixs = rt_swap_ixs t,
      rr_template_in_amount = rt_template_in_amount t,
      rr_template_quoted_out = rt_template_quoted_out t,
      rr_in_amount_offset = rt_in_amount_offset t,
      rr_quoted_out_offset = rt_quoted_out_offset t,
      rr_seen_count = rt_seen_count t, rr_hit_count = rt_hit_count t\<rparr>"

definition loaded_template :: "u128 \<Rightarrow> route_record \<Rightarrow> route_template" where
  "loaded_template sig rec =
     \<lparr>rt_route_signature = sig, rt_swap_ixs = rr_swap_ixs rec,
      rt_template_in_amount = rr_template_in_amount rec,
      rt_template_quoted_out = rr_template_quoted_out rec,
      rt_in_amount_offset = rr_in_amount_offset rec,
      rt_quoted_out_offset = rr_quoted_out_offset rec,
      rt_amount_variants = [],
      rt_seen_count = rr_seen_count rec, rt_hit_count = rr_hit_count rec\<rparr>"

record 't serde =
  ser_routes :: "route_file \<Rightarrow> 't option"
  de_routes :: "'t \<Rightarrow> route_file option"
  ser_hops :: "dex_hop_file \<Rightarrow> 't option"
  de_hops :: "'t \<Rightarrow> dex_hop_file option"

subsection \<open>Loading\<close>

definition load_route :: "route_record \<Rightarrow> store \<times> nat \<Rightarrow> store \<times> nat" where
  "load_route rec = (\<lambda>(g, count).
     (case (parse_word (rr_sig rec) :: u128 option) of
        None \<Rightarrow> (g, count)
      | Some sig \<Rightarrow>
          if hm_contains (routes_hot g) sig \<or> hm_contains (routes_cold g) sig then (g, count)
          else (g\<lparr>routes_hot := hm_insert sig (loaded_template sig rec) (routes_hot g)\<rparr>,
                count + 1)))"

definition load_pair :: "string \<times> string \<Rightarrow> store \<Rightarrow> store" where
  "load_pair = (\<lambda>(pair, sig_str) g.
     (case parse_word sig_str of
        None \<Rightarrow> g
      | Some sig \<Rightarrow> g\<lparr>hop_pair_index := hm_or_insert pair sig (hop_pair_index g)\<rparr>))"

definition load_routes_from_disk :: "'t serde \<Rightarrow> 't fs \<Rightarrow> store \<Rightarrow> store \<times> nat" where
  "load_routes_from_disk sd fs g =
     (case Option.bind (hm_get fs routes_path) (de_routes sd) of
        None \<Rightarrow> (g, 0)
      | Some file \<Rightarrow>
          (let (g, count) = fold load_route (rf_routes file) (g, 0)
           in (fold load_pair (rf_hop_pairs file) g, count)))"

definition key_of_template :: "hop_template \<Rightarrow> hop_key" where
  "key_of_template t =
     \<lparr>hk_dex = ht_dex t, hk_pool_or_amm_key = ht_pool_or_amm_key t,
      hk_input_mint = ht_input_mint t, hk_output_mint = ht_output_mint t,
      hk_direction = ht_direction t,
      hk_remaining_accounts_hash = ht_remaining_accounts_hash t\<rparr>"

definition load_hop_file :: "'t serde \<Rightarrow> string \<times> 't \<Rightarrow> store \<times> nat \<Rightarrow> store \<times> nat" where
  "load_hop_file sd = (\<lambda>(name, text) (g, count).
     (if extension name \<noteq> Some ''json'' then (g, count)
      else case de_hops sd text of
             None \<Rightarrow> (g, count)
           | Some file \<Rightarrow>
               fold (\<lambda>(_, tmpl) (g, count).
                   (g\<lparr>hops := hm_or_insert (key_of_template tmpl) tmpl (hops g)\<rparr>, count + 1))
                 (hf_templates file) (g, count)))"

definition load_from_disk :: "'t serde \<Rightarrow> 't fs \<Rightarrow> store \<Rightarrow> store \<times> nat" where
  "load_from_disk sd fs g = fold (load_hop_file sd) (dir_entries hops_dir fs) (g, 0)"

subsection \<open>Flushing\<close>

definition route_file_of :: "store \<Rightarrow> route_file" where
  "route_file_of g =
     \<lparr>rf_schema_version = 1,
      rf_routes = map (\<lambda>(_, t). from_template t) (routes_hot g @ routes_cold g),
      rf_hop_pairs = map (\<lambda>(k, v). (k, show_word v)) (hop_pair_index g)\<rparr>"

definition flush_routes_to_disk :: "'t serde \<Rightarrow> 't io_faults \<Rightarrow> store \<Rightarrow> 't fs \<Rightarrow> 't fs" where
  "flush_routes_to_disk sd io g fs =
     (case ser_routes sd (route_file_of g) of
        None \<Rightarrow> fs
      | Some text \<Rightarrow> write_rename io routes_path text fs)"

definition add_to_dex ::
  "hop_key \<times> hop_template \<Rightarrow> (string, dex_kind \<times> (string, hop_template) hmap) hmap
   \<Rightarrow> (string, dex_kind \<times> (string, hop_template) hmap) hmap" where
  "add_to_dex = (\<lambda>(key, tmpl) by_dex.
     (let stem = file_stem (hk_dex key);
          (dex, m) = (case hm_get by_dex stem of None \<Rightarrow> (hk_dex key, []) | Some e \<Rightarrow> e)
      in hm_insert stem (dex, hm_insert (template_id key) tmpl m) by_dex))"

definition hop_path :: "string \<Rightarrow> string" where
  "hop_path stem = hops_dir @ ''/'' @ stem @ ''.json''"

definition write_dex_file ::
  "'t serde \<Rightarrow> 't io_faults \<Rightarrow> string \<times> dex_kind \<times> (string, hop_template) hmap \<Rightarrow> 't fs \<Rightarrow> 't fs" where
  "write_dex_file sd io = (\<lambda>(stem, dex, templates) fs.
     (case ser_hops sd \<lparr>hf_schema_version = 1, hf_dex = dex, hf_templates = templates\<rparr> of
        None \<Rightarrow> fs
      | Some text \<Rightarrow> write_rename io (hop_path stem) text fs))"

definition flush_to_disk :: "'t serde \<Rightarrow> 't io_faults \<Rightarrow> store \<Rightarrow> 't fs \<Rightarrow> 't fs" where
  "flush_to_disk sd io g fs =
     fold (write_dex_file sd io) (fold add_to_dex (hops g) [])
       (flush_routes_to_disk sd io g fs)"

text \<open>The documented law of the serialiser: what was written reads back, maps up to the order
  of their entries.\<close>

definition serde_ok :: "'t serde \<Rightarrow> bool" where
  "serde_ok sd \<longleftrightarrow>
     (\<forall>f. hm_ok (rf_hop_pairs f) \<longrightarrow>
        (\<exists>t f'. ser_routes sd f = Some t \<and> de_routes sd t = Some f' \<and>
           rf_routes f' = rf_routes f \<and> hm_ok (rf_hop_pairs f') \<and>
           set (rf_hop_pairs f') = set (rf_hop_pairs f))) \<and>
     (\<forall>f. hm_ok (hf_templates f) \<longrightarrow>
        (\<exists>t f'. ser_hops sd f = Some t \<and> de_hops sd t = Some f' \<and>
           set (hf_templates f') = set (hf_templates f)))"

subsection \<open>Files after a write\<close>

lemma write_rename_no_faults:
  "hm_ok fs \<Longrightarrow> hm_get (write_rename no_faults path text fs) q =
     (if q = path then Some text else if q = path @ ''.tmp'' then None else hm_get fs q)"
  by (simp add: write_rename_def no_faults_def Let_def hm.get_del)

lemma hm_ok_write_rename [simp, intro]: "hm_ok fs \<Longrightarrow> hm_ok (write_rename io path text fs)"
  by (simp add: write_rename_def Let_def split: option.split)

lemma write_rename_atomic:
  assumes "hm_ok fs" and "\<not> suffix ''.tmp'' q"
  shows "hm_get (write_rename io path text fs) q = (if q = path \<and>
      partial_write io (path @ ''.tmp'') = None \<and> \<not> rename_fails io path
    then Some text else hm_get fs q)"
proof -
  have "q \<noteq> path @ ''.tmp''" using assms(2) by (auto simp: suffix_def)
  with assms(1) show ?thesis
    by (simp add: write_rename_def Let_def hm.get_del split: option.split)
qed

lemma dir_entries_iff:
  assumes "hm_ok fs"
  shows "(name, text) \<in> set (dir_entries dir fs) \<longleftrightarrow>
     hm_get fs (dir @ ''/'' @ name) = Some text \<and> CHR ''/'' \<notin> set name"
proof
  assume "(name, text) \<in> set (dir_entries dir fs)"
  then obtain p where p: "(p, text) \<in> set fs" "take (length dir + 1) p = dir @ ''/''"
      "CHR ''/'' \<notin> set (drop (length dir + 1) p)" "name = drop (length dir + 1) p"
    by (auto simp: dir_entries_def)
  have "p = dir @ ''/'' @ name"
  proof -
    have "take (length dir + 1) p @ name = p" using p(4) by (simp only: append_take_drop_id)
    with p(2) show ?thesis by (metis append_assoc)
  qed
  moreover have "hm_get fs p = Some text" using p(1) assms by (simp only: hm_get_iff)
  ultimately show "hm_get fs (dir @ ''/'' @ name) = Some text \<and> CHR ''/'' \<notin> set name"
    using p(3,4) by (simp only: simp_thms)
next
  assume "hm_get fs (dir @ ''/'' @ name) = Some text \<and> CHR ''/'' \<notin> set name"
  then have "(dir @ ''/'' @ name, text) \<in> set fs" and "CHR ''/'' \<notin> set name"
    by (auto dest: hm_get_SomeD)
  then have "(dir @ ''/'' @ name, text) \<in>
      set (filter (\<lambda>(p, _). take (length dir + 1) p = dir @ ''/'' \<and>
                         CHR ''/'' \<notin> set (drop (length dir + 1) p)) fs)"
    by simp
  from imageI [OF this, of "\<lambda>(p, t). (drop (length dir + 1) p, t)"]
  show "(name, text) \<in> set (dir_entries dir fs)"
    by (simp add: dir_entries_def)
qed

lemma map_of_same_set:
  assumes "set xs = set ys" and "distinct (map fst ys)"
  shows "map_of xs = map_of ys"
proof
  fix k
  have iff: "map_of ys k = Some v \<longleftrightarrow> (k, v) \<in> set xs" for v
    using assms by simp
  show "map_of xs k = map_of ys k"
  proof (cases "map_of xs k")
    case None
    then have "k \<notin> fst ` set ys" using assms(1) by (simp add: map_of_eq_None_iff)
    then have "map_of ys k = None" by (simp only: map_of_eq_None_iff simp_thms)
    with None show ?thesis by simp
  next
    case (Some v)
    then have "(k, v) \<in> set xs" by (rule map_of_SomeD)
    then have "map_of ys k = Some v" using iff by blast
    with Some show ?thesis by simp
  qed
qed

subsection \<open>Loading routes\<close>

definition stripped :: "route_template \<Rightarrow> route_template" where
  "stripped t = t\<lparr>rt_amount_variants := []\<rparr>"

lemma loaded_from_template: "loaded_template (rt_route_signature t) (from_template t) = stripped t"
  by (simp add: loaded_template_def from_template_def stripped_def)

lemma rr_sig_from_template [simp]: "rr_sig (from_template t) = show_word (rt_route_signature t)"
  by (simp add: from_template_def)

lemma load_route_from_template:
  "routes_cold g = [] \<Longrightarrow>
   fst (load_route (from_template t) (g, n)) =
     g\<lparr>routes_hot := hm_or_insert (rt_route_signature t) (stripped t) (routes_hot g)\<rparr>"
  by (simp add: load_route_def hm_or_insert_def hm_contains_def loaded_from_template)

lemma load_route_frame [frame_simps]:
  "hops (fst (load_route rec p)) = hops (fst p)"
  "hop_pair_index (fst (load_route rec p)) = hop_pair_index (fst p)"
  "routes_cold (fst (load_route rec p)) = routes_cold (fst p)"
  by (auto simp: load_route_def split: prod.split option.split)

lemma fold_load_route_frame [frame_simps]:
  "hops (fst (fold load_route recs p)) = hops (fst p)"
  "hop_pair_index (fst (fold load_route recs p)) = hop_pair_index (fst p)"
  "routes_cold (fst (fold load_route recs p)) = routes_cold (fst p)"
  by (induction recs arbitrary: p) (simp_all add: frame_simps)

lemma load_pair_frame [frame_simps]:
  "hops (load_pair p g) = hops g"
  "routes_hot (load_pair p g) = routes_hot g"
  "routes_cold (load_pair p g) = routes_cold g"
  by (auto simp: load_pair_def split: prod.split option.split)

lemma fold_load_pair_frame [frame_simps]:
  "hops (fold load_pair ps g) = hops g"
  "routes_hot (fold load_pair ps g) = routes_hot g"
  "routes_cold (fold load_pair ps g) = routes_cold g"
  by (induction ps arbitrary: g) (simp_all add: frame_simps)


lemma fold_load_route_hot:
  "routes_cold g = [] \<Longrightarrow>
   routes_hot (fst (fold load_route (map from_template ts) (g, n))) =
     fold (\<lambda>(k, v) m. if hm_get m k = None then hm_insert k v m else m)
       (map (\<lambda>t. (rt_route_signature t, stripped t)) ts) (routes_hot g)"
proof (induction ts arbitrary: g n)
  case Nil
  then show ?case by simp
next
  case (Cons t ts)
  obtain g' n' where step: "load_route (from_template t) (g, n) = (g', n')" by fastforce
  then have g': "g' = g\<lparr>routes_hot := hm_or_insert (rt_route_signature t) (stripped t) (routes_hot g)\<rparr>"
    using load_route_from_template [OF Cons.prems, of t n] by simp
  with Cons.prems have "routes_cold g' = []" by simp
  from Cons.IH [OF this, of n'] step g' show ?case by (simp add: hm_or_insert_def)
qed

lemma fold_load_pair_index:
  "hop_pair_index (fold load_pair ps g) =
     fold (\<lambda>(k, v) m. if hm_get m k = None then hm_insert k v m else m)
       (List.map_filter (\<lambda>(k, s). map_option (Pair k) (parse_word s)) ps) (hop_pair_index g)"
  by (induction ps arbitrary: g)
    (auto simp: map_filter_simps load_pair_def hm_or_insert_def split: option.split)

lemma map_of_shown_pairs:
  fixes idx :: "(string, u128) hmap"
  assumes "hm_ok idx" and "hm_ok ps" and "set ps = set (map (\<lambda>(k, v). (k, show_word v)) idx)"
  shows "map_of (List.map_filter (\<lambda>(k, s). map_option (Pair k) (parse_word s)) ps) k =
    hm_get idx k"
proof -
  let ?parsed = "map (\<lambda>(k, s). (k, the (parse_word s :: u128 option))) ps"
  have "\<And>p. p \<in> set ps \<Longrightarrow> \<exists>k v. p = (k, show_word (v :: u128))" using assms(3) by auto
  then have "List.map_filter (\<lambda>(k, s). map_option (Pair k) (parse_word s)) ps = ?parsed"
  proof (induction ps)
    case Nil
    then show ?case by (simp add: map_filter_simps)
  next
    case (Cons p ps)
    obtain k and v :: u128 where "p = (k, show_word v)" using Cons.prems [of p] by auto
    moreover have "\<exists>k v. q = (k, show_word (v :: u128))" if "q \<in> set ps" for q
      using that Cons.prems [of q] by simp
    ultimately show ?case using Cons.IH by (simp add: map_filter_simps)
  qed
  moreover have "set ?parsed = set idx"
    unfolding set_map assms(3) by (simp add: image_image case_prod_unfold)
  moreover have "distinct (map fst idx)" using assms(1) by (simp add: hm_ok_def)
  ultimately show ?thesis using map_of_same_set [of ?parsed idx] by (simp only: hm_get_def)
qed

text \<open>A store whose templates are filed under their own signatures.\<close>

definition filed :: "store \<Rightarrow> bool" where
  "filed g \<longleftrightarrow> (\<forall>k t. (k, t) \<in> set (routes_hot g @ routes_cold g) \<longrightarrow> rt_route_signature t = k)"

lemma filed_if_inv: "store_inv dec g \<Longrightarrow> filed g"
proof -
  assume inv: "store_inv dec g"
  then have seg: "segments_ok g" and tmpl: "templates_ok dec g" by (simp_all add: store_inv_def)
  have "rt_route_signature t = k" if "(k, t) \<in> set (routes_hot g @ routes_cold g)" for k t
  proof -
    from that seg have "hm_get (routes_hot g) k = Some t \<or> hm_get (routes_cold g) k = Some t"
      by (auto simp: segments_ok_def hm_get_iff)
    with seg have "lookup_route g k = Some t"
      by (auto simp: lookup_route_def segments_ok_def split: option.splits)
    with tmpl show ?thesis by (auto simp: templates_ok_def template_wf_def)
  qed
  then show "filed g" by (auto simp: filed_def)
qed

lemma map_of_filed:
  assumes "filed g"
  shows "map_of (map (\<lambda>t. (rt_route_signature t, stripped t)) (map snd (routes_hot g @ routes_cold g))) sig =
    map_option stripped (lookup_route g sig)"
proof -
  have eq: "map (\<lambda>t. (rt_route_signature t, stripped t)) (map snd (routes_hot g @ routes_cold g)) =
      map (\<lambda>(k, t). (k, stripped t)) (routes_hot g @ routes_cold g)"
    unfolding map_map
    by (rule map_cong [OF refl]) (use assms in \<open>auto simp: filed_def\<close>)
  show ?thesis
    unfolding eq by (simp add: map_of_map lookup_route_def hm_get_def map_add_def split: option.split)
qed

lemma load_flushed_routes:
  assumes "serde_ok sd" and "segments_ok g" and "filed g" and "hm_get fs routes_path =
      ser_routes sd (route_file_of g)"
  shows "lookup_route (fst (load_routes_from_disk sd fs new_store)) sig =
      map_option stripped (lookup_route g sig)"
    and "hm_get (hop_pair_index (fst (load_routes_from_disk sd fs new_store))) k =
      hm_get (hop_pair_index g) k"
proof -
  let ?ts = "map snd (routes_hot g @ routes_cold g)"
  have idx: "hm_ok (hop_pair_index g)" using assms(2) by (simp add: segments_ok_def)
  then have "hm_ok (rf_hop_pairs (route_file_of g))"
    by (simp add: route_file_of_def hm_ok_def comp_def case_prod_unfold)
  with assms(1) obtain t f' where f': "ser_routes sd (route_file_of g) = Some t"
      "de_routes sd t = Some f'" "rf_routes f' = rf_routes (route_file_of g)"
      "hm_ok (rf_hop_pairs f')" "set (rf_hop_pairs f') = set (rf_hop_pairs (route_file_of g))"
    unfolding serde_ok_def by blast
  have recs: "rf_routes f' = map from_template ?ts"
    using f'(3) by (simp add: route_file_of_def case_prod_unfold)
  have load: "fst (load_routes_from_disk sd fs new_store) =
      fold load_pair (rf_hop_pairs f') (fst (fold load_route (map from_template ?ts) (new_store, 0)))"
    using f'(1,2) assms(4) unfolding recs [symmetric]
    by (simp add: load_routes_from_disk_def Let_def case_prod_unfold)
  have cold: "routes_cold new_store = []" by (simp add: new_store_def)
  have hot: "hm_get (routes_hot (fst (load_routes_from_disk sd fs new_store))) sig =
      map_option stripped (lookup_route g sig)"
    unfolding load frame_simps fold_load_route_hot [OF cold] hm.get_fold_or_insert
      map_of_filed [OF assms(3)]
    by (simp add: new_store_def)
  have "routes_cold (fst (load_routes_from_disk sd fs new_store)) = []"
    unfolding load frame_simps by (simp add: cold)
  with hot show "lookup_route (fst (load_routes_from_disk sd fs new_store)) sig =
      map_option stripped (lookup_route g sig)"
    by (simp add: lookup_route_def split: option.split)
  have "set (rf_hop_pairs f') = set (map (\<lambda>(k, v). (k, show_word v)) (hop_pair_index g))"
    using f'(5) by (simp add: route_file_of_def)
  note pairs = map_of_shown_pairs [OF idx f'(4) this]
  show "hm_get (hop_pair_index (fst (load_routes_from_disk sd fs new_store))) k =
      hm_get (hop_pair_index g) k"
    unfolding load fold_load_pair_index frame_simps hm.get_fold_or_insert pairs
    by (simp add: new_store_def)
qed


subsection \<open>Hop files\<close>

text \<open>A hop's template is filed under the key it spells out, and addresses hold no separator.\<close>

definition hops_filed :: "store \<Rightarrow> bool" where
  "hops_filed g \<longleftrightarrow> hm_ok (hops g) \<and>
     (\<forall>k t. (k, t) \<in> set (hops g) \<longrightarrow> key_of_template t = k \<and> plain_key k)"

text \<open>The template that the files hold for a stem and a template id.\<close>

definition filed_at ::
  "(string, dex_kind \<times> (string, hop_template) hmap) hmap \<Rightarrow> string \<times> string \<Rightarrow> hop_template option" where
  "filed_at B = (\<lambda>(stem, i). Option.bind (hm_get B stem) (\<lambda>(_, m). hm_get m i))"

definition file_id :: "hop_key \<Rightarrow> string \<times> string" where
  "file_id k = (file_stem (hk_dex k), template_id k)"

lemma file_stem_inject: "file_stem d = file_stem d' \<longleftrightarrow> d = d'"
  by (cases d; cases d') simp_all

lemma file_id_inject: "file_id k = file_id k' \<Longrightarrow> plain_key k \<Longrightarrow> plain_key k' \<Longrightarrow> k = k'"
  using template_id_eq [of k k'] by (cases k; cases k') (auto simp: file_id_def file_stem_inject)

lemma filed_at_add:
  "filed_at (add_to_dex (k, t) B) p = (if p = file_id k then Some t else filed_at B p)"
  by (cases p) (auto simp: filed_at_def add_to_dex_def file_id_def Let_def split: option.splits prod.splits)

lemma filed_at_fold:
  "filed_at (fold add_to_dex hs B) p =
     (case map_of (rev (map (\<lambda>(k, t). (file_id k, t)) hs)) p of
        None \<Rightarrow> filed_at B p | Some t \<Rightarrow> Some t)"
  by (induction hs arbitrary: B) (auto simp: filed_at_add map_add_def split: option.splits)

definition dex_files_ok :: "(string, dex_kind \<times> (string, hop_template) hmap) hmap \<Rightarrow> bool" where
  "dex_files_ok B \<longleftrightarrow> hm_ok B \<and>
     (\<forall>stem d m. hm_get B stem = Some (d, m) \<longrightarrow> stem = file_stem d \<and> hm_ok m)"

lemma dex_files_ok_add: "dex_files_ok B \<Longrightarrow> dex_files_ok (add_to_dex (k, t) B)"
  by (auto simp: dex_files_ok_def add_to_dex_def Let_def split: option.splits prod.splits if_splits)

lemma dex_files_ok_fold: "dex_files_ok B \<Longrightarrow> dex_files_ok (fold add_to_dex hs B)"
  by (induction hs arbitrary: B) (auto simp: dex_files_ok_add)

lemma filed_at_hops:
  assumes "hops_filed g"
  shows "filed_at (fold add_to_dex (hops g) []) p = Some t \<longleftrightarrow>
    (\<exists>k. (k, t) \<in> set (hops g) \<and> file_id k = p)"
proof -
  let ?hs = "map (\<lambda>(k, t). (file_id k, t)) (hops g)"
  have inj: "inj_on file_id (fst ` set (hops g))"
    using assms by (intro inj_onI file_id_inject) (auto simp: hops_filed_def)
  have "map fst ?hs = map file_id (map fst (hops g))" by auto
  with inj assms have "distinct (map fst ?hs)"
    by (simp only: distinct_map) (auto simp: hops_filed_def hm_ok_def distinct_map)
  then have "distinct (map fst (rev ?hs))" by (simp only: rev_map [symmetric] distinct_rev)
  then have "map_of (rev ?hs) p = Some t \<longleftrightarrow> (p, t) \<in> set (rev ?hs)"
    by (rule map_of_eq_Some_iff)
  moreover have "filed_at [] p = None" by (cases p) (simp add: filed_at_def)
  ultimately show ?thesis
    by (auto simp: filed_at_fold split: option.splits)
qed

lemma extension_json: "extension (file_stem d @ ''.json'') = Some ''json''"
  by (cases d) (simp_all add: extension_def)

lemma no_slash_stem: "CHR ''/'' \<notin> set (file_stem d @ ''.json'')"
  by (cases d) simp_all


definition hop_text :: "'t serde \<Rightarrow> dex_kind \<times> (string, hop_template) hmap \<Rightarrow> 't option" where
  "hop_text sd = (\<lambda>(d, m). ser_hops sd \<lparr>hf_schema_version = 1, hf_dex = d, hf_templates = m\<rparr>)"

lemma hop_path_inject: "hop_path s = hop_path s' \<longleftrightarrow> s = s'"
  by (simp add: hop_path_def)

lemma hop_path_not_tmp: "hop_path s \<noteq> hop_path s' @ ''.tmp''"
proof
  assume "hop_path s = hop_path s' @ ''.tmp''"
  then have "last (hop_path s) = last (hop_path s' @ ''.tmp'')" by (rule arg_cong)
  then show False by (simp add: hop_path_def)
qed

lemma hm_ok_write_dex_files: "hm_ok fs \<Longrightarrow> hm_ok (fold (write_dex_file sd io) B fs)"
  by (induction B arbitrary: fs) (auto simp: write_dex_file_def split: option.split)

lemma write_dex_file_get:
  assumes "hm_ok fs" and "hop_text sd (d, m) = Some text"
  shows "hm_get (write_dex_file sd no_faults (stem, d, m) fs) q =
     (if q = hop_path stem then Some text
      else if q = hop_path stem @ ''.tmp'' then None else hm_get fs q)"
  using assms by (simp add: write_dex_file_def hop_text_def write_rename_no_faults)

lemma write_dex_files_keep:
  assumes "hm_ok fs" and "hop_path stem \<notin> hop_path ` fst ` set B"
  shows "hm_get (fold (write_dex_file sd no_faults) B fs) (hop_path stem) = hm_get fs (hop_path stem)"
  using assms
proof (induction B arbitrary: fs)
  case Nil
  then show ?case by simp
next
  case (Cons e B)
  obtain s d m where e: "e = (s, d, m)" by (cases e)
  have "hm_ok (write_dex_file sd no_faults e fs)"
    using hm_ok_write_dex_files [OF Cons.prems(1), of sd no_faults "[e]"] by simp
  from Cons.IH [OF this] Cons.prems show ?case
    by (auto simp: e write_dex_file_def hop_path_not_tmp write_rename_no_faults split: option.split)
qed

lemma write_dex_files_get:
  assumes "hm_ok fs" and "hm_ok B" and "(stem, dm) \<in> set B" and "hop_text sd dm = Some text"
  shows "hm_get (fold (write_dex_file sd no_faults) B fs) (hop_path stem) = Some text"
  using assms
proof (induction B arbitrary: fs)
  case Nil
  then show ?case by simp
next
  case (Cons e B)
  obtain s d m where e: "e = (s, d, m)" by (cases e)
  have ok: "hm_ok (write_dex_file sd no_faults e fs)"
    using hm_ok_write_dex_files [OF Cons.prems(1), of sd no_faults "[e]"] by simp
  show ?case
  proof (cases "(stem, dm) = e")
    case True
    then have "stem \<notin> fst ` set B" using Cons.prems(2) by (simp add: hm_ok_def True [symmetric])
    then have "hop_path stem \<notin> hop_path ` fst ` set B" by (metis hop_path_inject imageE)
    from write_dex_files_keep [OF ok this] True e Cons.prems show ?thesis
      by (simp add: write_dex_file_get)
  next
    case False
    with Cons ok show ?thesis by (simp add: hm_ok_def)
  qed
qed

lemma write_dex_files_other:
  assumes "hm_ok fs" and "hm_get (fold (write_dex_file sd no_faults) B fs) q = Some text"
    and "q \<notin> hop_path ` fst ` set B"
  shows "hm_get fs q = Some text"
  using assms
proof (induction B arbitrary: fs)
  case Nil
  then show ?case by simp
next
  case (Cons e B)
  obtain s d m where e: "e = (s, d, m)" by (cases e)
  have "hm_ok (write_dex_file sd no_faults e fs)"
    using hm_ok_write_dex_files [OF Cons.prems(1), of sd no_faults "[e]"] by simp
  from Cons.IH [OF this] Cons.prems
  have "hm_get (write_dex_file sd no_faults e fs) q = Some text" by simp
  with Cons.prems(1,3) show ?case
    by (auto simp: e write_dex_file_def write_rename_no_faults split: option.splits if_splits)
qed

text \<open>All the entries a load of the hop directory meets.\<close>

definition entries_of :: "'t serde \<Rightarrow> string \<times> 't \<Rightarrow> (hop_key \<times> hop_template) list" where
  "entries_of sd = (\<lambda>(name, text).
     (if extension name \<noteq> Some ''json'' then []
      else case de_hops sd text of
             None \<Rightarrow> []
           | Some f \<Rightarrow> map (\<lambda>(_, t). (key_of_template t, t)) (hf_templates f)))"

lemma fold_load_templates:
  "hops (fst (fold (\<lambda>(_, tmpl) (g, count).
       (g\<lparr>hops := hm_or_insert (key_of_template tmpl) tmpl (hops g)\<rparr>, Suc count)) ts (g, n))) =
   fold (\<lambda>(k, v) m. if hm_get m k = None then hm_insert k v m else m)
     (map (\<lambda>(_, t). (key_of_template t, t)) ts) (hops g)"
  by (induction ts arbitrary: g n) (auto simp: hm_or_insert_def)

lemma load_hop_file_hops:
  "hops (fst (load_hop_file sd e p)) =
     fold (\<lambda>(k, v) m. if hm_get m k = None then hm_insert k v m else m)
       (entries_of sd e) (hops (fst p))"
  by (cases e; cases p)
    (simp add: load_hop_file_def entries_of_def fold_load_templates split: option.split)

lemma load_from_disk_hops:
  "hops (fst (fold (load_hop_file sd) es p)) =
     fold (\<lambda>(k, v) m. if hm_get m k = None then hm_insert k v m else m)
       (concat (map (entries_of sd) es)) (hops (fst p))"
  by (induction es arbitrary: p) (simp_all add: load_hop_file_hops)


lemma flushed_entries:
  assumes "hm_ok fs" and "hm_ok B" and "\<And>stem d m. (stem, d, m) \<in> set B \<Longrightarrow> stem = file_stem d"
    and "dir_entries hops_dir fs = []"
    and "\<And>dm. dm \<in> snd ` set B \<Longrightarrow> hop_text sd dm \<noteq> None"
  shows "(name, text) \<in> set (dir_entries hops_dir (fold (write_dex_file sd no_faults) B fs)) \<longleftrightarrow>
    (\<exists>stem dm. (stem, dm) \<in> set B \<and> name = stem @ ''.json'' \<and> hop_text sd dm = Some text)"
    (is "?L \<longleftrightarrow> ?R")
proof
  let ?fs = "fold (write_dex_file sd no_faults) B fs"
  have ok: "hm_ok ?fs" using assms(1) by (rule hm_ok_write_dex_files)
  assume ?L
  then have get: "hm_get ?fs (hops_dir @ ''/'' @ name) = Some text" and ns: "CHR ''/'' \<notin> set name"
    using dir_entries_iff [OF ok] by blast+
  have "hops_dir @ ''/'' @ name \<in> hop_path ` fst ` set B"
  proof (rule ccontr)
    assume "\<not> ?thesis"
    with write_dex_files_other [OF assms(1) get] have "hm_get fs (hops_dir @ ''/'' @ name) = Some text" .
    with ns have "(name, text) \<in> set (dir_entries hops_dir fs)"
      using dir_entries_iff [OF assms(1)] by blast
    with assms(4) show False by simp
  qed
  then obtain stem dm where B: "(stem, dm) \<in> set B" and "hops_dir @ ''/'' @ name = hop_path stem"
    by auto
  then have name: "name = stem @ ''.json''" by (simp add: hop_path_def)
  have "dm \<in> snd ` set B" using B by (force intro: rev_image_eqI)
  then obtain text' where text': "hop_text sd dm = Some text'" using assms(5) by blast
  from write_dex_files_get [OF assms(1,2) B text'] get name have "text' = text"
    by (simp add: hop_path_def)
  with B name text' show ?R by blast
next
  let ?fs = "fold (write_dex_file sd no_faults) B fs"
  have ok: "hm_ok ?fs" using assms(1) by (rule hm_ok_write_dex_files)
  assume ?R
  then obtain stem dm where *: "(stem, dm) \<in> set B" "name = stem @ ''.json''"
    "hop_text sd dm = Some text" by blast
  then have "stem = file_stem (fst dm)" using assms(3) [of stem "fst dm" "snd dm"] by simp
  then have "CHR ''/'' \<notin> set name" using *(2) no_slash_stem by simp
  moreover have "hm_get ?fs (hops_dir @ ''/'' @ name) = Some text"
    using write_dex_files_get [OF assms(1,2) *(1,3)] *(2) by (simp add: hop_path_def)
  ultimately show ?L using dir_entries_iff [OF ok] by blast
qed

lemma flushed_hop_set:
  assumes "serde_ok sd" and "hops_filed g" and "hm_ok fs" and "dir_entries hops_dir fs = []"
  shows "set (concat (map (entries_of sd) (dir_entries hops_dir
      (fold (write_dex_file sd no_faults) (fold add_to_dex (hops g) []) fs)))) = set (hops g)"
    (is "?S = _")
proof -
  let ?B = "fold add_to_dex (hops g) []"
  have B: "dex_files_ok ?B"
    by (rule dex_files_ok_fold) (simp add: dex_files_ok_def)
  then have okB: "hm_ok ?B" by (simp add: dex_files_ok_def)
  have stems: "stem = file_stem d \<and> hm_ok m" if "(stem, d, m) \<in> set ?B" for stem d m
    using B that okB by (auto simp: dex_files_ok_def hm_get_iff)
  have reads: "\<exists>t f'. hop_text sd (d, m) = Some t \<and> de_hops sd t = Some f' \<and>
      set (hf_templates f') = set m" if "hm_ok m" for d m
    using assms(1) that unfolding serde_ok_def hop_text_def
    by (auto dest!: spec [where x = "\<lparr>hf_schema_version = 1, hf_dex = d, hf_templates = m\<rparr>"])
  have texts: "hop_text sd dm \<noteq> None" if "dm \<in> snd ` set ?B" for dm
  proof -
    from that obtain stem where "(stem, fst dm, snd dm) \<in> set ?B" by auto
    with stems reads [of "snd dm" "fst dm"] show ?thesis by auto
  qed
  have entries: "(name, body) \<in> set (dir_entries hops_dir (fold (write_dex_file sd no_faults) ?B fs)) \<longleftrightarrow>
    (\<exists>stem dm. (stem, dm) \<in> set ?B \<and> name = stem @ ''.json'' \<and> hop_text sd dm = Some body)"
    for name body
    using flushed_entries [OF assms(3) okB _ assms(4) texts] stems by blast
  have at: "(\<exists>stem d m i. (stem, d, m) \<in> set ?B \<and> (i, t) \<in> set m) \<longleftrightarrow>
      (\<exists>k. (k, t) \<in> set (hops g))" for t
  proof -
    have "filed_at ?B (stem, i) = Some t \<longleftrightarrow> (\<exists>d m. (stem, d, m) \<in> set ?B \<and> (i, t) \<in> set m)" for stem i
    proof -
      have "filed_at ?B (stem, i) = Some t \<longleftrightarrow>
          (\<exists>d m. hm_get ?B stem = Some (d, m) \<and> hm_get m i = Some t)"
        by (simp add: filed_at_def bind_eq_Some_conv)
      also have "\<dots> \<longleftrightarrow> (\<exists>d m. (stem, d, m) \<in> set ?B \<and> hm_get m i = Some t)"
        by (simp only: hm_get_iff [OF okB])
      also have "\<dots> \<longleftrightarrow> (\<exists>d m. (stem, d, m) \<in> set ?B \<and> (i, t) \<in> set m)"
        using stems hm_get_iff by metis
      finally show ?thesis .
    qed
    then have "(\<exists>stem d m i. (stem, d, m) \<in> set ?B \<and> (i, t) \<in> set m) \<longleftrightarrow>
        (\<exists>stem i. filed_at ?B (stem, i) = Some t)"
      by blast
    also have "\<dots> \<longleftrightarrow> (\<exists>k. (k, t) \<in> set (hops g))"
      unfolding filed_at_hops [OF assms(2)] by (metis surj_pair)
    finally show ?thesis .
  qed
  have "(k, t) \<in> ?S \<longleftrightarrow> (\<exists>stem d m i. (stem, d, m) \<in> set ?B \<and> (i, t) \<in> set m \<and> key_of_template t = k)"
    for k t
  proof
    assume "(k, t) \<in> ?S"
    then obtain name body where e: "(name, body) \<in> set (dir_entries hops_dir
        (fold (write_dex_file sd no_faults) ?B fs))" and kt: "(k, t) \<in> set (entries_of sd (name, body))"
      by auto
    from e obtain stem d m where dm: "(stem, d, m) \<in> set ?B" "hop_text sd (d, m) = Some body"
      using entries by auto
    with reads [of m d] stems [of stem d m] obtain f' where "de_hops sd body = Some f'"
      "set (hf_templates f') = set m" by auto
    with kt dm show "\<exists>stem d m i. (stem, d, m) \<in> set ?B \<and> (i, t) \<in> set m \<and> key_of_template t = k"
      by (auto simp: entries_of_def split: if_splits)
  next
    assume "\<exists>stem d m i. (stem, d, m) \<in> set ?B \<and> (i, t) \<in> set m \<and> key_of_template t = k"
    then obtain stem d m i where dm: "(stem, d, m) \<in> set ?B" "(i, t) \<in> set m" "key_of_template t = k"
      by blast
    with stems [of stem d m] reads [of m d] obtain body f' where
      f': "hop_text sd (d, m) = Some body" "de_hops sd body = Some f'" "set (hf_templates f') = set m"
      and stem: "stem = file_stem d" by auto
    from dm f' have e: "(stem @ ''.json'', body) \<in> set (dir_entries hops_dir
        (fold (write_dex_file sd no_faults) ?B fs))"
      using entries by blast
    have "(k, t) \<in> set (entries_of sd (stem @ ''.json'', body))"
      using dm f' extension_json [of d] stem by (force simp: entries_of_def)
    with e show "(k, t) \<in> ?S" by auto
  qed
  moreover have "(k, t) \<in> set (hops g) \<longleftrightarrow> (\<exists>k'. (k', t) \<in> set (hops g) \<and> key_of_template t = k)" for k t
    using assms(2) by (auto simp: hops_filed_def)
  ultimately have "(k, t) \<in> ?S \<longleftrightarrow> (k, t) \<in> set (hops g)" for k t
    using at [of t] by blast
  then show ?thesis by auto
qed


lemma routes_path_not_hop: "routes_path \<noteq> hop_path s" "routes_path \<noteq> hop_path s @ ''.tmp''"
  by (simp_all add: routes_path_def hop_path_def hops_dir_def BASE_DIR_def)

lemma write_dex_files_routes:
  "hm_ok fs \<Longrightarrow> hm_get (fold (write_dex_file sd io) B fs) routes_path = hm_get fs routes_path"
proof (induction B arbitrary: fs)
  case Nil
  then show ?case by simp
next
  case (Cons e B)
  obtain s d m where e: "e = (s, d, m)" by (cases e)
  have "hm_ok (write_dex_file sd io e fs)"
    using hm_ok_write_dex_files [OF Cons.prems, of sd io "[e]"] by simp
  moreover have "\<not> suffix ''.tmp'' routes_path" by (simp add: routes_path_def suffix_def BASE_DIR_def)
  ultimately show ?case
    using Cons.IH Cons.prems
    by (simp add: e write_dex_file_def write_rename_atomic routes_path_not_hop split: option.split)
qed

lemma flush_routes_hop_entries:
  assumes "hm_ok fs" and "dir_entries hops_dir fs = []"
  shows "dir_entries hops_dir (flush_routes_to_disk sd no_faults g fs) = []"
proof -
  let ?fs = "flush_routes_to_disk sd no_faults g fs"
  have ok: "hm_ok ?fs" using assms(1) by (simp add: flush_routes_to_disk_def split: option.split)
  have "(name, body) \<notin> set (dir_entries hops_dir ?fs)" for name body
  proof
    assume "(name, body) \<in> set (dir_entries hops_dir ?fs)"
    then have "hm_get ?fs (hops_dir @ ''/'' @ name) = Some body" "CHR ''/'' \<notin> set name"
      using dir_entries_iff [OF ok] by blast+
    moreover have "hops_dir @ ''/'' @ name \<noteq> routes_path"
      by (simp add: hops_dir_def routes_path_def BASE_DIR_def)
    ultimately have "hm_get fs (hops_dir @ ''/'' @ name) = Some body" "CHR ''/'' \<notin> set name"
      using assms(1)
      by (auto simp: flush_routes_to_disk_def write_rename_no_faults split: option.splits if_splits)
    then have "(name, body) \<in> set (dir_entries hops_dir fs)"
      using dir_entries_iff [OF assms(1)] by blast
    with assms(2) show False by simp
  qed
  then show ?thesis by (metis list.set_intros(1) list.exhaust surj_pair)
qed

text \<open>Recording hops keeps the hop templates filed under their keys.\<close>

lemma record_hop_filed:
  assumes "hops_filed g" and "\<And>k. hop_key_of h = Some k \<Longrightarrow> plain_key k"
  shows "hops_filed (record_hop slot h g)"
proof (cases "hop_key_of h")
  case None
  with assms(1) show ?thesis by (simp add: record_hop_def)
next
  case (Some key)
  let ?h = "hops (record_hop slot h g)"
  have ok: "hm_ok ?h" using assms(1) by (simp add: hops_filed_def hops_ok_record_hop)
  have "key_of_template t = k \<and> plain_key k" if "(k, t) \<in> set ?h" for k t
  proof -
    have "hm_get ?h k = Some t" using that ok by (simp only: hm_get_iff)
    moreover have "key_of_template t' = k \<and> plain_key k" if "hm_get (hops g) k = Some t'" for t'
      using that assms(1) by (auto simp: hops_filed_def dest: hm_get_SomeD)
    ultimately show ?thesis
      using Some assms(2) [OF Some]
      by (auto simp: record_hop_def key_of_template_def new_hop_template_def split: if_splits)
  qed
  with ok show ?thesis by (simp add: hops_filed_def)
qed

subsection \<open>Properties\<close>

text \<open>Restarting loses no route: after a flush without I/O faults, a fresh store that loads
  the route file answers every signature as before, except that the exact-amount variants
  are gone, and the hop-pair index is the same.\<close>

theorem routes_survive_restart:
  assumes "serde_ok sd" and "store_inv dec g" and "hm_ok fs"
  shows "lookup_route (fst (load_routes_from_disk sd (flush_to_disk sd no_faults g fs) new_store)) sig =
      map_option stripped (lookup_route g sig) \<and>
    hm_get (hop_pair_index (fst (load_routes_from_disk sd (flush_to_disk sd no_faults g fs) new_store))) k =
      hm_get (hop_pair_index g) k"
proof -
  have seg: "segments_ok g" using assms(2) by (simp add: store_inv_def)
  then have "hm_ok (rf_hop_pairs (route_file_of g))"
    by (simp add: route_file_of_def segments_ok_def hm_ok_def comp_def case_prod_unfold)
  with assms(1) obtain t where t: "ser_routes sd (route_file_of g) = Some t"
    unfolding serde_ok_def by blast
  have "hm_get (flush_to_disk sd no_faults g fs) routes_path = Some t"
    using assms(3) t
    by (simp add: flush_to_disk_def flush_routes_to_disk_def write_dex_files_routes
        write_rename_no_faults)
  then show ?thesis
    using load_flushed_routes [OF assms(1) seg filed_if_inv [OF assms(2)]] t by simp
qed

text \<open>The serialiser of the witnesses keeps the record itself as the text.\<close>

datatype disk_text = RouteText route_file | HopText dex_hop_file

definition plain_serde :: "disk_text serde" where
  "plain_serde =
     \<lparr>ser_routes = (\<lambda>f. Some (RouteText f)),
      de_routes = (\<lambda>t. case t of RouteText f \<Rightarrow> Some f | _ \<Rightarrow> None),
      ser_hops = (\<lambda>f. Some (HopText f)),
      de_hops = (\<lambda>t. case t of HopText f \<Rightarrow> Some f | _ \<Rightarrow> None)\<rparr>"

lemma plain_serde_ok: "serde_ok plain_serde"
  by (simp add: serde_ok_def plain_serde_def)

theorem routes_survive_restart_witness:
  "lookup_route (fst (load_routes_from_disk plain_serde (flush_to_disk plain_serde no_faults
      (run_ops plain_dec [OpInsert 7 (sample_swap ''d'') 100 200 JNull]) []) new_store)) 7 =
   map_option stripped (lookup_route
      (run_ops plain_dec [OpInsert 7 (sample_swap ''d'') 100 200 JNull]) 7)"
  using routes_survive_restart [OF plain_serde_ok _ hm_ok_Nil, of plain_dec
      "run_ops plain_dec [OpInsert 7 (sample_swap ''d'') 100 200 JNull]" 7 "[]"]
    run_ops_inv [of plain_dec] by blast



text \<open>C34: Whatever write or rename fails, \<open>routes.json\<close> is never torn: after a flush it has
  its old contents or the complete new ones.\<close>

theorem flush_is_atomic:
  assumes "hm_ok fs"
  shows "hm_get (flush_to_disk sd io g fs) routes_path \<in>
    {hm_get fs routes_path, ser_routes sd (route_file_of g)}"
proof -
  have "\<not> suffix ''.tmp'' routes_path" by (simp add: routes_path_def suffix_def BASE_DIR_def)
  with assms show ?thesis
    by (simp add: flush_to_disk_def flush_routes_to_disk_def write_dex_files_routes
        write_rename_atomic split: option.split)
qed

theorem flush_is_atomic_witness:
  "hm_get (flush_to_disk plain_serde
      \<lparr>partial_write = (\<lambda>_. Some (HopText \<lparr>hf_schema_version = 0, hf_dex = Other, hf_templates = []\<rparr>)),
       rename_fails = (\<lambda>_. True)\<rparr> new_store []) routes_path \<in>
    {None, ser_routes plain_serde (route_file_of new_store)}"
  using flush_is_atomic [OF hm_ok_Nil] by (metis hm_get_Nil)

text \<open>Loading is not capped: a file with more routes than one segment may hold fills the hot
  segment beyond its capacity.\<close>

lemma load_route_grows:
  assumes "parse_word (rr_sig rec) = Some (sig :: u128)"
    and "hm_get (routes_hot g) sig = None" and "hm_get (routes_cold g) sig = None"
  shows "length (routes_hot (fst (load_route rec (g, n)))) = Suc (length (routes_hot g))"
  using assms by (simp add: load_route_def hm_contains_def length_hm_insert)

end
