(* ===== verification/RouteSig.thy ===== *)
theory RouteSig
  imports Json "HOL-Library.Char_ord" "HOL-Library.List_Lexorder"
begin

text \<open>
  The route signature of \<open>src/src/template_cache.rs\<close>: two passes of FNV-1a over the
  \<open>swapInfo\<close> objects of a route plan, with sorted keys and without the amount fields.
  The lemmas show that each pass is FNV-1a of one canonical byte string, and from it
  what the signature does and does not depend on.
\<close>

definition fnv_prime :: u64 where
  "fnv_prime = 0x00000001000001b3"

definition fnv_feed :: "string \<Rightarrow> u64 \<Rightarrow> u64" where
  "fnv_feed bs h = foldl (\<lambda>h c. (h XOR of_char c) * fnv_prime) h bs"

definition is_amount_field :: "string \<Rightarrow> bool" where
  "is_amount_field k \<longleftrightarrow> k = ''inAmount'' \<or> k = ''outAmount'' \<or> k = ''feeAmount''"

fun feed_value :: "json \<Rightarrow> u64 \<Rightarrow> u64" where
  "feed_value (JString s) h = fnv_feed s h"
| "feed_value (JBool b) h = fnv_feed (if b then ''T'' else ''F'') h"
| "feed_value (JNumber n) h = fnv_feed n h"
| "feed_value _ h = h"

definition feed_field :: "json_map \<Rightarrow> string \<Rightarrow> u64 \<Rightarrow> u64" where
  "feed_field si k h =
     (if is_amount_field k then h
      else
        let h = fnv_feed k h;
            h = fnv_feed ''='' h;
            h = (case map_of si k of Some v \<Rightarrow> feed_value v h | None \<Rightarrow> h)
        in fnv_feed '';'' h)"

definition feed_hop :: "json \<Rightarrow> u64 \<Rightarrow> u64" where
  "feed_hop hop h =
     (case swap_info hop of
        None \<Rightarrow> h
      | Some si \<Rightarrow> fold (feed_field si) (sort (map fst si)) h)"

definition fnv1a_64 :: "json \<Rightarrow> u64 \<Rightarrow> u64" where
  "fnv1a_64 route_plan seed =
     (case as_array route_plan of
        None \<Rightarrow> seed
      | Some arr \<Rightarrow> fold feed_hop arr seed)"

definition route_sig :: "json \<Rightarrow> u128" where
  "route_sig route_plan =
     (let h1 = fnv1a_64 route_plan 0xcbf29ce484222325;
          h2 = fnv1a_64 route_plan 0x517cc1b727220a95
      in push_bit 64 (ucast h1) OR ucast h2)"

subsection \<open>The canonical byte string\<close>

fun field_text :: "json \<Rightarrow> string" where
  "field_text (JString s) = s"
| "field_text (JBool b) = (if b then ''T'' else ''F'')"
| "field_text (JNumber n) = n"
| "field_text _ = []"

text \<open>The structure of a hop: every field that is not an amount, as text.\<close>

definition hop_image :: "json_map \<Rightarrow> string \<Rightarrow> string option" where
  "hop_image si k = (if is_amount_field k then None else map_option field_text (map_of si k))"

definition route_image :: "json \<Rightarrow> (string \<Rightarrow> string option) option list" where
  "route_image plan = map (\<lambda>hop. map_option hop_image (swap_info hop)) (plan_hops plan)"

definition image_bytes :: "(string \<Rightarrow> string option) \<Rightarrow> string list \<Rightarrow> string" where
  "image_bytes f ks = concat (map (\<lambda>k. k @ ''='' @ the (f k) @ '';'') ks)"

definition hop_bytes :: "json \<Rightarrow> string" where
  "hop_bytes hop =
     (case swap_info hop of
        None \<Rightarrow> []
      | Some si \<Rightarrow>
          image_bytes (hop_image si) (filter (\<lambda>k. \<not> is_amount_field k) (sort (map fst si))))"

lemma fnv_feed_append: "fnv_feed (xs @ ys) h = fnv_feed ys (fnv_feed xs h)"
  by (simp add: fnv_feed_def)

lemma fnv_feed_Nil [simp]: "fnv_feed [] h = h"
  by (simp add: fnv_feed_def)

lemma feed_value_text: "feed_value v h = fnv_feed (field_text v) h"
  by (cases v) auto

lemma image_bytes_Cons:
  "image_bytes f (k # ks) = k @ ''='' @ the (f k) @ '';'' @ image_bytes f ks"
  by (simp add: image_bytes_def)

lemma image_bytes_append: "image_bytes f (ks @ ks') = image_bytes f ks @ image_bytes f ks'"
  by (simp add: image_bytes_def)

lemma image_bytes_cong:
  assumes "\<And>k. k \<in> A \<Longrightarrow> f k = g k" and "set ks \<subseteq> A"
  shows "image_bytes f (filter P ks) = image_bytes g (filter P ks)"
proof -
  have "map (\<lambda>k. k @ ''='' @ the (f k) @ '';'') (filter P ks) =
      map (\<lambda>k. k @ ''='' @ the (g k) @ '';'') (filter P ks)"
    using assms by (intro map_cong) auto
  then show ?thesis by (simp only: image_bytes_def)
qed

lemma hop_image_text:
  "\<not> is_amount_field k \<Longrightarrow> map_of si k = Some v \<Longrightarrow> the (hop_image si k) = field_text v"
  by (simp add: hop_image_def)

lemma dom_hop_image: "dom (hop_image si) = fst ` set si \<inter> {k. \<not> is_amount_field k}"
proof -
  have "dom (hop_image si) = dom (map_of si) \<inter> {k. \<not> is_amount_field k}"
    by (auto simp: hop_image_def dom_def split: if_splits)
  then show ?thesis by (simp add: dom_map_of_conv_image_fst)
qed

lemma feed_fields_bytes:
  "set ks \<subseteq> fst ` set si \<Longrightarrow>
   fold (feed_field si) ks h =
     fnv_feed (image_bytes (hop_image si) (filter (\<lambda>k. \<not> is_amount_field k) ks)) h"
proof (induction ks arbitrary: h)
  case Nil
  then show ?case by (simp add: image_bytes_def)
next
  case (Cons k ks)
  then obtain v where "map_of si k = Some v"
    by (metis list.set_intros(1) map_of_eq_None_iff not_None_eq subsetD)
  with Cons show ?case
    by (simp add: feed_field_def image_bytes_Cons hop_image_text fnv_feed_append feed_value_text
        del: append_Cons)
qed

lemma feed_hop_bytes: "feed_hop hop h = fnv_feed (hop_bytes hop) h"
  by (simp add: feed_hop_def hop_bytes_def feed_fields_bytes split: option.splits)

lemma fnv1a_64_bytes:
  "fnv1a_64 plan seed = fnv_feed (concat (map hop_bytes (plan_hops plan))) seed"
proof -
  have "fold feed_hop hops h = fnv_feed (concat (map hop_bytes hops)) h" for hops h
    by (induction hops arbitrary: h) (simp_all add: feed_hop_bytes fnv_feed_append)
  then show ?thesis by (simp add: fnv1a_64_def plan_hops_def split: option.splits)
qed

lemma sorted_fields:
  assumes "distinct (map fst si)"
  shows "filter (\<lambda>k. \<not> is_amount_field k) (sort (map fst si)) =
    sorted_list_of_set (dom (hop_image si))"
proof (rule sorted_distinct_set_unique)
  show "set (filter (\<lambda>k. \<not> is_amount_field k) (sort (map fst si))) =
      set (sorted_list_of_set (dom (hop_image si)))"
    by (auto simp: dom_hop_image)
qed (use assms in \<open>simp_all add: sorted_filter [where f = id, simplified] distinct_filter\<close>)

lemma hop_bytes_image:
  assumes "\<And>si. swap_info hop = Some si \<Longrightarrow> distinct (map fst si)"
  shows "hop_bytes hop =
    (case map_option hop_image (swap_info hop) of
       None \<Rightarrow> [] | Some f \<Rightarrow> image_bytes f (sorted_list_of_set (dom f)))"
  using assms by (auto simp: hop_bytes_def sorted_fields split: option.splits)

lemma route_bytes_image:
  assumes "wf_plan plan"
  shows "concat (map hop_bytes (plan_hops plan)) =
    concat (map (\<lambda>f. case f of None \<Rightarrow> [] | Some f \<Rightarrow> image_bytes f (sorted_list_of_set (dom f)))
      (route_image plan))"
proof -
  have "hop_bytes hop = (case map_option hop_image (swap_info hop) of
      None \<Rightarrow> [] | Some f \<Rightarrow> image_bytes f (sorted_list_of_set (dom f)))"
    if "hop \<in> set (plan_hops plan)" for hop
    using assms that by (intro hop_bytes_image) (auto simp: wf_plan_def)
  then show ?thesis
    by (simp add: route_image_def o_def cong: map_cong)
qed

lemma route_sig_bytes:
  "concat (map hop_bytes (plan_hops p)) = concat (map hop_bytes (plan_hops q)) \<Longrightarrow>
   route_sig p = route_sig q"
  by (simp add: route_sig_def fnv1a_64_bytes)

subsection \<open>Properties\<close>

text \<open>C37: the signature depends only on the structure of the hops: two plans whose
  \<open>swapInfo\<close> objects agree outside the three amount fields, in whatever order their
  fields come and whatever the hops hold beside \<open>swapInfo\<close>, have the same signature.\<close>

theorem route_sig_structural:
  assumes "wf_plan p" and "wf_plan q" and "route_image p = route_image q"
  shows "route_sig p = route_sig q"
  using assms by (intro route_sig_bytes) (simp add: route_bytes_image)

theorem route_sig_structural_witness:
  "route_sig (JArray [JObject [(''swapInfo'',
       JObject [(''ammKey'', JString ''P''), (''inAmount'', JString ''7''), (''a_to_b'', JBool True)]),
      (''percent'', JNumber ''100'')]]) =
   route_sig (JArray [JObject [(''swapInfo'',
       JObject [(''a_to_b'', JBool True), (''inAmount'', JString ''9''), (''ammKey'', JString ''P'')])]])"
  by (rule route_sig_structural)
    (auto simp: wf_plan_def plan_hops_def swap_info_def route_image_def hop_image_def
      is_amount_field_def fun_eq_iff)

lemma map_of_append_fst: "k \<in> fst ` set xs \<Longrightarrow> map_of (xs @ ys) k = map_of xs k"
  by (induction xs) auto

lemma map_of_append_snd: "k \<notin> fst ` set xs \<Longrightarrow> map_of (xs @ ys) k = map_of ys k"
  by (induction xs) auto

text \<open>Beyond the structure, the signature does not separate hops: a two-hop plan and the one-hop plan whose
  \<open>swapInfo\<close> holds the fields of both, those of the first hop before those of the second
  in key order, collide.\<close>

lemma route_sig_ignores_hop_boundary:
  assumes "sorted (map fst (si1 @ si2))" and "distinct (map fst (si1 @ si2))"
  shows "route_sig (JArray [JObject [(''swapInfo'', JObject si1)],
                            JObject [(''swapInfo'', JObject si2)]]) =
         route_sig (JArray [JObject [(''swapInfo'', JObject (si1 @ si2))]])"
proof (rule route_sig_bytes)
  have sorted: "sort (map fst si1) = map fst si1" "sort (map fst si2) = map fst si2"
      "sort (map fst si1 @ map fst si2) = map fst si1 @ map fst si2"
    using assms(1) by (simp_all add: sorted_sort_id sorted_append)
  have left: "hop_image si1 k = hop_image (si1 @ si2) k" if "k \<in> fst ` set si1" for k
    using map_of_append_fst [OF that, of si2] by (simp add: hop_image_def)
  have right: "hop_image si2 k = hop_image (si1 @ si2) k" if "k \<in> fst ` set si2" for k
  proof -
    from that assms(2) have "k \<notin> fst ` set si1" by auto
    from map_of_append_snd [OF this, of si2] show ?thesis by (simp add: hop_image_def)
  qed
  have 1: "image_bytes (hop_image si1) (filter P (map fst si1)) =
      image_bytes (hop_image (si1 @ si2)) (filter P (map fst si1))" for P
    by (rule image_bytes_cong [OF left]) auto
  have 2: "image_bytes (hop_image si2) (filter P (map fst si2)) =
      image_bytes (hop_image (si1 @ si2)) (filter P (map fst si2))" for P
    by (rule image_bytes_cong [OF right]) auto
  show "concat (map hop_bytes (plan_hops (JArray [JObject [(''swapInfo'', JObject si1)],
          JObject [(''swapInfo'', JObject si2)]]))) =
        concat (map hop_bytes (plan_hops (JArray [JObject [(''swapInfo'', JObject (si1 @ si2))]])))"
    by (simp add: hop_bytes_def swap_info_def sorted image_bytes_append 1 2 del: append_Cons)
qed

end
