(* ===== verification/RateLimiter.thy ===== *)
theory RateLimiter
  imports Prelude
begin

text \<open>
  \<open>src/src/rate_limiter.rs\<close>: the sliding-window limiter in front of each Jito submission
  path.  An \<open>Instant\<close> is a count of nanoseconds of the monotonic clock, read as an
  integer (its origin is arbitrary, so subtracting a second never underflows); the
  reading of the clock is an argument of \<open>try_acquire\<close>.

  The locale \<open>window_limiter\<close> is what the workers rely on.  Its client lemmas are the
  window bound and the equivalence with a reference limiter that never forgets a grant;
  the interpretation discharges the laws for \<open>try_acquire\<close>, the cast of the length to
  \<open>u32\<close> included.
\<close>

type_synonym instant = int

definition one_sec :: int where
  "one_sec = 1000000000"

record rate_limiter =
  max_per_second :: u32
  timestamps :: "instant list"

definition new_limiter :: "u32 \<Rightarrow> rate_limiter" where
  "new_limiter n = \<lparr>max_per_second = n, timestamps = []\<rparr>"

definition recent :: "instant \<Rightarrow> instant list \<Rightarrow> instant list" where
  "recent now ts = filter (\<lambda>t. now - one_sec < t) ts"

definition try_acquire :: "instant \<Rightarrow> rate_limiter \<Rightarrow> bool \<times> rate_limiter" where
  "try_acquire now rl =
     (let rl = rl\<lparr>timestamps := recent now (timestamps rl)\<rparr>
      in if (of_nat (length (timestamps rl)) :: u32) < max_per_second rl
         then (True, rl\<lparr>timestamps := timestamps rl @ [now]\<rparr>)
         else (False, rl))"

text \<open>The granted instants of a sequence of calls.\<close>

fun grants :: "(instant \<Rightarrow> 's \<Rightarrow> bool \<times> 's) \<Rightarrow> 's \<Rightarrow> instant list \<Rightarrow> instant list" where
  "grants acquire s [] = []"
| "grants acquire s (t # ts) =
     (case acquire t s of (b, s') \<Rightarrow> (if b then [t] else []) @ grants acquire s' ts)"

text \<open>Reference limiter: it keeps every grant and counts those less than a second (in nanoseconds)
  old.\<close>

fun ref_grants :: "nat \<Rightarrow> instant list \<Rightarrow> instant list \<Rightarrow> instant list" where
  "ref_grants n past [] = []"
| "ref_grants n past (t # ts) =
     (if length [x \<leftarrow> past. t - x < 1000000000] < n then t # ref_grants n (past @ [t]) ts
      else ref_grants n past ts)"

definition in_window :: "instant \<Rightarrow> instant list \<Rightarrow> nat" where
  "in_window w ts = length (filter (\<lambda>t. w < t \<and> t \<le> w + one_sec) ts)"

subsection \<open>Pruning and windows\<close>

lemma recent_append [simp]: "recent t (xs @ ys) = recent t xs @ recent t ys"
  by (simp add: recent_def)

lemma recent_recent: "t \<le> t' \<Longrightarrow> recent t' (recent t xs) = recent t' xs"
  by (auto simp: recent_def intro!: filter_cong)

lemma recent_now [simp]: "recent t [t] = [t]"
  by (simp add: recent_def one_sec_def)

lemma recent_within_second: "[x \<leftarrow> xs. t - x < 1000000000] = recent t xs"
  unfolding recent_def one_sec_def by (rule filter_cong) auto

lemma length_recent_le: "length (recent t xs) \<le> length xs"
  by (simp add: recent_def)

lemma in_window_append [simp]: "in_window w (xs @ ys) = in_window w xs + in_window w ys"
  by (simp add: in_window_def)

lemma in_window_le: "in_window w xs \<le> length xs"
  by (simp add: in_window_def)

lemma in_window_later: "\<forall>y \<in> set ys. t \<le> y \<Longrightarrow> w + one_sec < t \<Longrightarrow> in_window w ys = 0"
  by (auto simp: in_window_def filter_empty_conv)

lemma in_window_recent:
  "t \<le> w + one_sec \<Longrightarrow> in_window w (recent t xs) = in_window w xs"
  by (simp add: in_window_def recent_def) (rule arg_cong [where f = length], rule filter_cong, auto)

lemma set_grants: "set (grants acquire s ts) \<subseteq> set ts"
  by (induction ts arbitrary: s) (auto split: prod.splits if_splits)

subsection \<open>The interface of a limiter\<close>

locale window_limiter =
  fixes acquire :: "instant \<Rightarrow> 's \<Rightarrow> bool \<times> 's"
    and log :: "'s \<Rightarrow> instant list"
    and cap :: "'s \<Rightarrow> nat"
    and inv :: "'s \<Rightarrow> bool"
  assumes inv_cap: "inv s \<Longrightarrow> length (log s) \<le> cap s"
    and acquire_inv: "inv s \<Longrightarrow> acquire now s = (b, s') \<Longrightarrow> inv s'"
    and acquire_cap: "acquire now s = (b, s') \<Longrightarrow> cap s' = cap s"
    and acquire_grant:
      "inv s \<Longrightarrow> acquire now s = (b, s') \<Longrightarrow> b \<longleftrightarrow> length (recent now (log s)) < cap s"
    and acquire_log:
      "acquire now s = (b, s') \<Longrightarrow> log s' = recent now (log s) @ (if b then [now] else [])"
begin

lemma window_bound:
  assumes "inv s" and "sorted ts"
  shows "in_window w (log s @ grants acquire s ts) \<le> cap s"
  using assms
proof (induction ts arbitrary: s)
  case Nil
  then show ?case using in_window_le [of w "log s"] inv_cap [of s] by simp
next
  case (Cons t ts)
  obtain b s' where step: "acquire t s = (b, s')" by (cases "acquire t s")
  let ?new = "if b then [t] else []"
  have IH: "in_window w (recent t (log s) @ ?new @ grants acquire s' ts) \<le> cap s"
    using Cons.IH [of s'] Cons.prems acquire_inv [OF _ step] acquire_cap [OF step]
      acquire_log [OF step] by simp
  have later: "\<forall>y \<in> set (?new @ grants acquire s' ts). t \<le> y"
    using Cons.prems(2) set_grants [of acquire s' ts] by auto
  show ?case
  proof (cases "t \<le> w + one_sec")
    case True
    with IH show ?thesis by (simp add: step in_window_recent)
  next
    case False
    then have "in_window w (?new @ grants acquire s' ts) = 0"
      using in_window_later [OF later] by simp
    then show ?thesis
      using in_window_le [of w "log s"] inv_cap [OF Cons.prems(1)] by (simp add: step)
  qed
qed

lemma grants_reference:
  assumes "inv s" and "sorted ts"
    and "\<And>t'. t' \<in> set ts \<Longrightarrow> recent t' past = recent t' (log s)"
  shows "grants acquire s ts = ref_grants (cap s) past ts"
  using assms
proof (induction ts arbitrary: s past)
  case Nil
  then show ?case by simp
next
  case (Cons t ts)
  obtain b s' where step: "acquire t s = (b, s')" by (cases "acquire t s")
  have b: "b \<longleftrightarrow> length (recent t past) < cap s"
    using acquire_grant [OF Cons.prems(1) step] Cons.prems(3) [of t] by simp
  let ?past = "past @ (if b then [t] else [])"
  have "recent t' ?past = recent t' (log s')" if "t' \<in> set ts" for t'
    using that Cons.prems(2) Cons.prems(3) [of t'] acquire_log [OF step]
    by (simp add: recent_recent)
  then have "grants acquire s' ts = ref_grants (cap s) ?past ts"
    using Cons.IH [of s' ?past] Cons.prems acquire_inv [OF _ step] acquire_cap [OF step] by simp
  then show ?case by (simp add: step b recent_within_second)
qed

end

subsection \<open>The bot's limiter meets the interface\<close>

definition limiter_inv :: "rate_limiter \<Rightarrow> bool" where
  "limiter_inv rl \<longleftrightarrow> length (timestamps rl) \<le> unat (max_per_second rl)"

definition limiter_cap :: "rate_limiter \<Rightarrow> nat" where
  "limiter_cap rl = unat (max_per_second rl)"

lemma u32_count_less:
  "n \<le> unat m \<Longrightarrow> (of_nat n :: u32) < m \<longleftrightarrow> n < unat m" for m :: u32
proof -
  assume "n \<le> unat m"
  moreover have "unat m < 2 ^ 32" using unsigned_less [of m] by simp
  ultimately have "n < 2 ^ 32" by simp
  then have "unat (of_nat n :: u32) = n" by (simp add: unat_of_nat)
  then show ?thesis by (simp add: word_less_nat_alt)
qed

interpretation rl: window_limiter try_acquire timestamps limiter_cap limiter_inv
proof
  fix s now b s'
  assume inv: "limiter_inv s"
  then show "length (timestamps s) \<le> limiter_cap s"
    by (simp add: limiter_inv_def limiter_cap_def)
  have le: "length (recent now (timestamps s)) \<le> unat (max_per_second s)"
    using inv length_recent_le [of now "timestamps s"] by (simp add: limiter_inv_def)
  assume step: "try_acquire now s = (b, s')"
  show "limiter_inv s'"
    using step le u32_count_less [OF le]
    by (auto simp: try_acquire_def Let_def limiter_inv_def split: if_splits)
  show "b \<longleftrightarrow> length (recent now (timestamps s)) < limiter_cap s"
    using step u32_count_less [OF le]
    by (auto simp: try_acquire_def Let_def limiter_cap_def split: if_splits)
next
  fix s now b s'
  assume step: "try_acquire now s = (b, s')"
  then show "limiter_cap s' = limiter_cap s"
    and "timestamps s' = recent now (timestamps s) @ (if b then [now] else [])"
    by (auto simp: try_acquire_def Let_def limiter_cap_def split: if_splits)
qed

lemma limiter_inv_new [simp]: "limiter_inv (new_limiter n)"
  by (simp add: limiter_inv_def new_limiter_def)

lemma try_acquire_keeps_inv: "limiter_inv rl \<Longrightarrow> limiter_inv (snd (try_acquire now rl))"
  by (rule rl.acquire_inv [where now = now and b = "fst (try_acquire now rl)"]) simp_all

subsection \<open>Properties\<close>

text \<open>C14: however the workers call it, the limiter grants at most \<open>max_per_second\<close>
  submissions in any window of one second.\<close>

theorem limiter_window_bound:
  assumes "sorted calls"
  shows "in_window w (grants try_acquire (new_limiter n) calls) \<le> unat n"
  using rl.window_bound [OF limiter_inv_new [of n] assms, of w]
  by (simp add: new_limiter_def limiter_cap_def)

theorem limiter_window_bound_witness:
  "in_window 0 (grants try_acquire (new_limiter 2) [1, 5, 7, 1000000002]) \<le> 2"
  using limiter_window_bound [of "[1, 5, 7, 1000000002]" 0 2] by simp

text \<open>C15: pruning is invisible: the limiter grants exactly the calls that a limiter
  keeping every past grant would, those with fewer than \<open>max_per_second\<close> grants in the
  second before them.\<close>

theorem limiter_equals_reference:
  assumes "sorted calls"
  shows "grants try_acquire (new_limiter n) calls = ref_grants (unat n) [] calls"
  using rl.grants_reference [OF limiter_inv_new [of n] assms, of "[]"]
  by (simp add: new_limiter_def limiter_cap_def)

theorem limiter_equals_reference_witness:
  "grants try_acquire (new_limiter 2) [1, 5, 7, 1000000002] = [1, 5, 1000000002]"
proof -
  have "sorted [1, 5, 7, 1000000002 :: instant]" by simp
  from limiter_equals_reference [OF this, of 2] show ?thesis by simp
qed

end
