(* ===== verification/Scan.thy ===== *)
theory Scan
  imports BotConfig BotMetrics TokenReports TemplateDisk RouteSig RateLimiter
begin

text \<open>
  The scanner of \<open>src/src/arbitrage.rs\<close>: the route filters, \<open>quote_check\<close> (two quotes and the
  gross-profit test), the list of (amount, token, mode) triples, the three-tier lookup of
  \<open>scan_all_tokens\<close> and the completion of a \<open>/swap-instructions\<close> request.  The routing
  engine's answers, the base64 codec and the clock are arguments.
\<close>

definition JITO_TIP_LAMPORTS :: u64 where
  "JITO_TIP_LAMPORTS = 1600"

definition NETWORK_FEE_LAMPORTS :: u64 where
  "NETWORK_FEE_LAMPORTS = 5000"

subsection \<open>Route filters\<close>

definition label_banned :: "string \<Rightarrow> bool" where
  "label_banned label =
     list_ex (\<lambda>banned. to_lowercase label = to_lowercase banned \<or>
                       str_contains (to_lowercase label) (to_lowercase banned))
       FORBIDDEN_DEX_LABELS"

definition value_in :: "string list \<Rightarrow> string \<times> json \<Rightarrow> bool" where
  "value_in ids = (\<lambda>(_, v). case as_str v of Some s \<Rightarrow> s \<in> set ids | None \<Rightarrow> False)"

definition hop_forbidden :: "json \<Rightarrow> bool" where
  "hop_forbidden hop =
     (case jget hop ''swapInfo'' of
        None \<Rightarrow> False
      | Some si \<Rightarrow>
          (case Option.bind (jget si ''label'') as_str of
             Some label \<Rightarrow> label_banned label | None \<Rightarrow> False) \<or>
          (case as_object si of
             Some obj \<Rightarrow> list_ex (value_in FORBIDDEN_DEX_PROGRAM_IDS) obj | None \<Rightarrow> False))"

definition route_uses_forbidden_dex :: "quote_response \<Rightarrow> bool" where
  "route_uses_forbidden_dex quote =
     (case as_array (q_route_plan quote) of
        None \<Rightarrow> False
      | Some arr \<Rightarrow> list_ex hop_forbidden arr)"

definition hop_pmm :: "json \<Rightarrow> bool" where
  "hop_pmm hop =
     (case swap_info hop of
        Some si \<Rightarrow> list_ex (value_in PMM_PROGRAM_IDS) si | None \<Rightarrow> False)"

definition route_uses_pmm :: "quote_response \<Rightarrow> bool" where
  "route_uses_pmm quote =
     (case as_array (q_route_plan quote) of
        None \<Rightarrow> False
      | Some arr \<Rightarrow> list_ex hop_pmm arr)"

definition amm_key :: "json \<Rightarrow> string option" where
  "amm_key hop =
     Option.bind (Option.bind (jget hop ''swapInfo'') (\<lambda>si. jget si ''ammKey'')) as_str"

definition routes_share_pool :: "quote_response \<Rightarrow> quote_response \<Rightarrow> bool" where
  "routes_share_pool q1 q2 =
     (let keys1 = (case as_array (q_route_plan q1) of
                     None \<Rightarrow> [] | Some hs \<Rightarrow> List.map_filter amm_key hs)
      in if keys1 = [] then False
         else case as_array (q_route_plan q2) of
                None \<Rightarrow> False
              | Some arr2 \<Rightarrow>
                  list_ex (\<lambda>hop. case amm_key hop of
                                   Some key \<Rightarrow> key \<in> set keys1 | None \<Rightarrow> False) arr2)"

definition lookup_cu_limit :: "nat \<Rightarrow> u32 list \<Rightarrow> u32" where
  "lookup_cu_limit hop_n cu_limits =
     (if cu_limits = [] then 200000
      else cu_limits ! min (hop_n - 2) (length cu_limits - 1))"

subsection \<open>Stage 1: quotes\<close>

record quote_pair =
  qp_token_mint :: string
  qp_amount :: u64
  qp_output_wsol :: u64
  qp_net_profit :: i64
  qp_quote1 :: quote_response
  qp_quote2 :: quote_response
  qp_hop_count :: nat
  qp_only_direct :: bool
  qp_is_pmm :: bool

type_synonym quote_fn =
  "string \<Rightarrow> string \<Rightarrow> u64 \<Rightarrow> bool \<Rightarrow> (quote_error, quote_response) outcome"

definition inc_q_sent :: "token_stat \<Rightarrow> token_stat" where
  "inc_q_sent s = s\<lparr>q_sent := q_sent s + 2\<rparr>"

definition inc_route_ok :: "token_stat \<Rightarrow> token_stat" where
  "inc_route_ok s = s\<lparr>route_ok := route_ok s + 1\<rparr>"

definition inc_route_fail :: "token_stat \<Rightarrow> token_stat" where
  "inc_route_fail s = s\<lparr>route_fail := route_fail s + 1\<rparr>"

definition inc_profitable :: "token_stat \<Rightarrow> token_stat" where
  "inc_profitable s = s\<lparr>profitable := profitable s + 1\<rparr>"

definition inc_not_profitable :: "token_stat \<Rightarrow> token_stat" where
  "inc_not_profitable s = s\<lparr>not_profitable := not_profitable s + 1\<rparr>"

definition hops_of :: "quote_response \<Rightarrow> nat" where
  "hops_of q = (case as_array (q_route_plan q) of Some a \<Rightarrow> length a | None \<Rightarrow> 1)"

text \<open>The second half: both quotes have arrived.\<close>

definition judge_quotes ::
  "string \<Rightarrow> u64 \<Rightarrow> bool \<Rightarrow> u64 \<Rightarrow> quote_response \<Rightarrow> quote_response \<Rightarrow> nat option \<Rightarrow>
   metrics \<Rightarrow> token_metrics \<Rightarrow> metrics \<times> token_metrics \<times> quote_pair option" where
  "judge_quotes token_mint amount only_direct min_profit quote1 quote2 ts m tm =
     (let output_wsol = (case parse_word (q_out_amount quote2) of Some v \<Rightarrow> v | None \<Rightarrow> 0);
          m = m\<lparr>metis_resp_total := metis_resp_total m + 1\<rparr>;
          tm = bump_stat ts inc_route_ok tm;
          stage1_threshold = saturating_add amount min_profit
      in if output_wsol \<le> stage1_threshold then (m, bump_stat ts inc_not_profitable tm, None)
         else if route_uses_forbidden_dex quote1 \<or> route_uses_forbidden_dex quote2
         then (m, bump_stat ts inc_not_profitable tm, None)
         else if routes_share_pool quote1 quote2
         then (m\<lparr>dropped_same_pool := dropped_same_pool m + 1\<rparr>,
               bump_stat ts inc_not_profitable tm, None)
         else
           let tm = bump_stat ts inc_profitable tm;
               is_pmm = route_uses_pmm quote1 \<or> route_uses_pmm quote2;
               hop_n = hops_of quote1 + hops_of quote2;
               m = m\<lparr>metis_resp_ok := metis_resp_ok m + 1\<rparr>;
               on_chain_floor =
                 saturating_add (saturating_add amount JITO_TIP_LAMPORTS) NETWORK_FEE_LAMPORTS;
               net_profit = output_wsol - on_chain_floor
           in (m, tm, Some \<lparr>qp_token_mint = token_mint, qp_amount = amount,
                 qp_output_wsol = output_wsol, qp_net_profit = net_profit,
                 qp_quote1 = quote1, qp_quote2 = quote2, qp_hop_count = hop_n,
                 qp_only_direct = only_direct, qp_is_pmm = is_pmm\<rparr>))"

definition quote_check ::
  "quote_fn \<Rightarrow> string \<Rightarrow> u64 \<Rightarrow> bool \<Rightarrow> u64 \<Rightarrow>
   metrics \<Rightarrow> token_metrics \<Rightarrow> metrics \<times> token_metrics \<times> quote_pair option" where
  "quote_check quote token_mint amount only_direct min_profit m tm =
     (let m = m\<lparr>metis_req_sent := metis_req_sent m + 2\<rparr>;
          ts = tm_get tm token_mint;
          tm = bump_stat ts inc_q_sent tm
      in case quote WSOL_MINT token_mint amount only_direct of
           Ok quote1 \<Rightarrow>
             (case (case parse_word (q_out_amount quote1) of
                      Some v \<Rightarrow> if 0 < v then Some v else None | None \<Rightarrow> None) of
                None \<Rightarrow> (m, bump_stat ts inc_route_fail tm, None)
              | Some token_amount \<Rightarrow>
                  (case quote token_mint WSOL_MINT token_amount only_direct of
                     Ok quote2 \<Rightarrow>
                       judge_quotes token_mint amount only_direct min_profit quote1 quote2 ts m tm
                   | _ \<Rightarrow> (m, bump_stat ts inc_route_fail tm, None)))
         | _ \<Rightarrow> (m, bump_stat ts inc_route_fail tm, None))"

subsection \<open>The triples of one scan\<close>

text \<open>The loop over amounts need not end, so it is a partial function.\<close>

partial_function (option) amounts_from :: "u64 \<Rightarrow> u64 \<Rightarrow> u64 \<Rightarrow> u64 list option" where
  "amounts_from max_lamports step_lamports amount =
     (if amount \<le> max_lamports
      then Option.bind (amounts_from max_lamports step_lamports (amount + step_lamports))
             (\<lambda>rest. Some (amount # rest))
      else Some [])"

definition pairs_of :: "string list \<Rightarrow> u64 \<Rightarrow> (u64 \<times> string \<times> bool) list" where
  "pairs_of token_mints amount =
     concat (map (\<lambda>token_mint. [(amount, token_mint, False), (amount, token_mint, True)]) token_mints)"

definition all_pairs :: "string list \<Rightarrow> u64 \<Rightarrow> u64 \<Rightarrow> u64 \<Rightarrow> (u64 \<times> string \<times> bool) list option" where
  "all_pairs token_mints min_lamports max_lamports step_lamports =
     map_option (\<lambda>amounts. concat (map (pairs_of token_mints) amounts))
       (amounts_from max_lamports step_lamports min_lamports)"

definition max_concurrent :: "nat \<Rightarrow> (u64 \<times> string \<times> bool) list \<Rightarrow> nat" where
  "max_concurrent max_concurrent_quotes pairs = min (max max_concurrent_quotes 1) (max (length pairs) 1)"

subsection \<open>The queue\<close>

record ready_instruction =
  ri_swap_ixs :: swap_instructions_response
  ri_hop_count :: nat
  ri_arrived_at :: instant
  ri_waited_for_slot :: bool

text \<open>What the scanner, the Metis jobs and the workers share.  The queue is a stack whose top is
  the end of the list; \<open>ps_sem\<close> counts the semaphore's permits.\<close>

record pipeline_state =
  ps_store :: store
  ps_metrics :: metrics
  ps_lifo :: "ready_instruction list"
  ps_sem :: nat

definition push_to_queue ::
  "swap_instructions_response \<Rightarrow> nat \<Rightarrow> instant \<Rightarrow> pipeline_state \<Rightarrow> pipeline_state" where
  "push_to_queue swap_ixs hop_n now st =
     (let item = \<lparr>ri_swap_ixs = swap_ixs, ri_hop_count = hop_n, ri_arrived_at = now,
                  ri_waited_for_slot = False\<rparr>;
          m = ps_metrics st
      in st\<lparr>ps_lifo := ps_lifo st @ [item],
            ps_metrics := m\<lparr>queue_in := queue_in m + 1, queue_depth := queue_depth m + 1\<rparr>,
            ps_sem := ps_sem st + 1\<rparr>)"

subsection \<open>The three tiers\<close>

record swap_job =
  sj_merged :: quote_response
  sj_sig :: u128
  sj_amount :: u64
  sj_floor :: u64
  sj_hop_count :: nat
  sj_context_slot :: "u64 option"
  sj_save_new :: bool

text \<open>Serving a template: \<open>None\<close> when it cannot be patched.\<close>

definition serve_template ::
  "encoder \<Rightarrow> decoder \<Rightarrow> route_template \<Rightarrow> u128 \<Rightarrow> u64 \<Rightarrow> u64 \<Rightarrow> nat \<Rightarrow> instant \<Rightarrow> pipeline_state \<Rightarrow>
   (unit, pipeline_state option) outcome" where
  "serve_template enc dec tmpl hit_sig amount on_chain_floor hop_n now st =
     (case serve_route enc dec tmpl amount on_chain_floor of
        Panic \<Rightarrow> Panic
      | Err _ \<Rightarrow> Ok None
      | Ok ixs \<Rightarrow>
          (let m = ps_metrics st;
               st = st\<lparr>ps_metrics := m\<lparr>route_template_hit := route_template_hit m + 1,
                         ix_from_ram := ix_from_ram m + 1, swap_ix_ok := swap_ix_ok m + 1\<rparr>,
                       ps_store := record_route_hit hit_sig (ps_store st)\<rparr>
           in Ok (Some (push_to_queue ixs hop_n now st))))"

text \<open>Both tiers return the new state and whether the opportunity was served.\<close>

definition try_serve ::
  "encoder \<Rightarrow> decoder \<Rightarrow> route_template option \<Rightarrow> (route_template \<Rightarrow> u128) \<Rightarrow> u64 \<Rightarrow> u64 \<Rightarrow> nat \<Rightarrow>
   instant \<Rightarrow> pipeline_state \<Rightarrow> (unit, pipeline_state \<times> bool) outcome" where
  "try_serve enc dec found hit_sig amount on_chain_floor hop_n now st =
     (case found of
        None \<Rightarrow> Ok (st, False)
      | Some tmpl \<Rightarrow>
          bind_outcome (serve_template enc dec tmpl (hit_sig tmpl) amount on_chain_floor hop_n now st)
            (\<lambda>r. Ok (case r of None \<Rightarrow> (st, False) | Some st' \<Rightarrow> (st', True))))"

definition tier1 ::
  "encoder \<Rightarrow> decoder \<Rightarrow> template_cache_config \<Rightarrow> u128 \<Rightarrow> u64 \<Rightarrow> u64 \<Rightarrow> nat \<Rightarrow> instant \<Rightarrow> pipeline_state \<Rightarrow>
   (unit, pipeline_state \<times> bool) outcome" where
  "tier1 enc dec tc sig amount on_chain_floor hop_n now st =
     (if serve_route_enabled tc
      then (let (g, found) = get_route sig (ps_store st)
            in try_serve enc dec found (\<lambda>_. sig) amount on_chain_floor hop_n now
                 (st\<lparr>ps_store := g\<rparr>))
      else Ok (st, False))"

definition tier2 ::
  "encoder \<Rightarrow> decoder \<Rightarrow> template_cache_config \<Rightarrow> json \<Rightarrow> u64 \<Rightarrow> u64 \<Rightarrow> nat \<Rightarrow> instant \<Rightarrow> pipeline_state \<Rightarrow>
   (unit, pipeline_state \<times> bool) outcome" where
  "tier2 enc dec tc route_plan amount on_chain_floor hop_n now st =
     (let (all_hit, missing) = check_hops route_plan (ps_store st); m = ps_metrics st
      in if all_hit
         then
           let st = st\<lparr>ps_metrics := m\<lparr>hop_template_all_hit := hop_template_all_hit m + 1\<rparr>\<rparr>
           in if serve_route_enabled tc
              then (let (g, found) = get_route_for_hops route_plan (ps_store st)
                    in try_serve enc dec found rt_route_signature amount on_chain_floor hop_n now
                         (st\<lparr>ps_store := g\<rparr>))
              else Ok (st, False)
         else if missing > 0
         then Ok (st\<lparr>ps_metrics := m\<lparr>hop_template_missing := hop_template_missing m + of_nat missing\<rparr>\<rparr>,
                  False)
         else Ok (st, False))"

definition tier3 ::
  "template_cache_config \<Rightarrow> quote_response \<Rightarrow> u128 \<Rightarrow> u64 \<Rightarrow> u64 \<Rightarrow> nat \<Rightarrow> pipeline_state \<Rightarrow>
   pipeline_state \<times> swap_job option" where
  "tier3 tc merged sig amount on_chain_floor hop_n st =
     (let m = ps_metrics st
      in if \<not> serve_from_metis tc
         then (st\<lparr>ps_metrics := m\<lparr>dropped_no_serve := dropped_no_serve m + 1,
                    tx_dropped := tx_dropped m + 1\<rparr>\<rparr>, None)
         else (st\<lparr>ps_metrics := m\<lparr>metis_req_sent := metis_req_sent m + 1\<rparr>\<rparr>,
               Some \<lparr>sj_merged = merged, sj_sig = sig, sj_amount = amount,
                     sj_floor = on_chain_floor, sj_hop_count = hop_n,
                     sj_context_slot = q_context_slot merged, sj_save_new = save_new tc\<rparr>))"

text \<open>One profitable pair: the state after it, and the Metis job it spawned, if any.\<close>

definition scan_pair ::
  "encoder \<Rightarrow> decoder \<Rightarrow> template_cache_config \<Rightarrow> instant \<Rightarrow> quote_pair \<Rightarrow> pipeline_state \<Rightarrow>
   (unit, pipeline_state \<times> swap_job option) outcome" where
  "scan_pair enc dec tc now pair st =
     (let on_chain_floor = qp_amount pair + JITO_TIP_LAMPORTS + NETWORK_FEE_LAMPORTS;
          m = ps_metrics st
      in if qp_only_direct pair \<and> qp_hop_count pair \<noteq> 2
         then Ok (st\<lparr>ps_metrics := m\<lparr>dropped_multi_hop := dropped_multi_hop m + 1,
                       tx_dropped := tx_dropped m + 1\<rparr>\<rparr>, None)
         else case merge_quotes (qp_quote1 pair) (qp_quote2 pair) on_chain_floor of
           Ok merged \<Rightarrow>
             (let hop_n = qp_hop_count pair; amount = qp_amount pair;
                  sig = route_sig (q_route_plan merged)
              in bind_outcome (tier1 enc dec tc sig amount on_chain_floor hop_n now st)
                   (\<lambda>(st, served). if served then Ok (st, None) else
                    bind_outcome (tier2 enc dec tc (q_route_plan merged) amount on_chain_floor hop_n now st)
                      (\<lambda>(st, served). if served then Ok (st, None) else
                       Ok (tier3 tc merged sig amount on_chain_floor hop_n st))))
         | _ \<Rightarrow> Ok (st\<lparr>ps_metrics := m\<lparr>dropped_merge_fail := dropped_merge_fail m + 1,
                       tx_dropped := tx_dropped m + 1\<rparr>\<rparr>, None))"

text \<open>The spawned task, once the request has been answered.\<close>

fun count_swap_error :: "swap_ix_error \<Rightarrow> metrics \<Rightarrow> metrics" where
  "count_swap_error Timeout m = m\<lparr>swap_ix_timeout := swap_ix_timeout m + 1\<rparr>"
| "count_swap_error (Http _) m = m\<lparr>swap_ix_http := swap_ix_http m + 1\<rparr>"
| "count_swap_error Network m = m\<lparr>swap_ix_network := swap_ix_network m + 1\<rparr>"
| "count_swap_error Parse m = m\<lparr>swap_ix_parse := swap_ix_parse m + 1\<rparr>"

definition finish_swap_job ::
  "decoder \<Rightarrow> swap_job \<Rightarrow> (swap_ix_error, swap_instructions_response) outcome \<Rightarrow> u64 \<Rightarrow> instant \<Rightarrow>
   pipeline_state \<Rightarrow> pipeline_state" where
  "finish_swap_job dec job result fetch_ms now st =
     (let m = ps_metrics st in
      case result of
        Ok swap_ixs \<Rightarrow>
          (let m = m\<lparr>metis_fetch_ms_total := metis_fetch_ms_total m + fetch_ms,
                     metis_fetch_samples := metis_fetch_samples m + 1,
                     swap_ix_ok := swap_ix_ok m + 1, ix_from_metis := ix_from_metis m + 1\<rparr>;
               g = ps_store st;
               plan = q_route_plan (sj_merged job);
               g = (if sj_save_new job
                    then record_hops plan (sj_context_slot job)
                           (insert_route dec (sj_sig job) swap_ixs (sj_amount job) (sj_floor job) plan g)
                    else g)
           in push_to_queue swap_ixs (sj_hop_count job) now (st\<lparr>ps_metrics := m, ps_store := g\<rparr>))
      | Err e \<Rightarrow>
          st\<lparr>ps_metrics := count_swap_error e (m\<lparr>swap_ix_failed := swap_ix_failed m + 1,
               tx_dropped := tx_dropped m + 1\<rparr>)\<rparr>
      | Panic \<Rightarrow> st)"

end
