(* ===== verification/ScanLaws.thy ===== *)
theory ScanLaws
  imports Scan
begin

text \<open>
  What the scanner of theory \<open>Scan\<close> guarantees: which quotes count as profitable, that the
  amount loop ends exactly when its step allows it, that every profitable pair is queued,
  dropped with a reason or sent to the routing engine, and that instructions fetched once are
  served from memory afterwards.
\<close>

subsection \<open>The loop over amounts\<close>

lemma amounts_from_nat:
  fixes lo hi step :: u64
  assumes "0 < step" and "unat hi + unat step < 2 ^ 64"
  shows "amounts_from hi step lo =
    Some (map (\<lambda>k. lo + of_nat k * step)
      [0..<(if unat lo \<le> unat hi then (unat hi - unat lo) div unat step + 1 else 0)])"
proof (induction "Suc (unat hi) - unat lo" arbitrary: lo rule: less_induct)
  case less
  show ?case
  proof (cases "lo \<le> hi")
    case False
    then show ?thesis by (subst amounts_from.simps) (simp add: word_le_nat_alt)
  next
    case True
    have pos: "0 < unat step" using assms(1) by (simp add: word_less_nat_alt)
    have le: "unat lo \<le> unat hi" using True by (simp add: word_le_nat_alt)
    with assms(2) have next_lo: "unat (lo + step) = unat lo + unat step"
      by (simp add: unat_word_ariths)
    let ?n = "\<lambda>x. if x \<le> unat hi then (unat hi - x) div unat step + 1 else 0"
    have count: "(unat hi - unat lo) div unat step = ?n (unat lo + unat step)"
    proof (cases "unat lo + unat step \<le> unat hi")
      case True
      then have "unat hi - unat lo = (unat hi - (unat lo + unat step)) + unat step" by simp
      then have "(unat hi - unat lo) div unat step =
          (unat hi - (unat lo + unat step)) div unat step + 1"
        using pos by (metis div_add_self2 less_irrefl)
      with True show ?thesis by simp
    next
      case False
      with le show ?thesis by (simp add: div_less)
    qed
    have "amounts_from hi step (lo + step) =
        Some (map (\<lambda>k. (lo + step) + of_nat k * step) [0..<?n (unat lo + unat step)])"
      using less.hyps [of "lo + step"] next_lo pos le by simp
    moreover have "map (\<lambda>k. lo + of_nat k * step) [0..<Suc n] =
        lo # map (\<lambda>k. (lo + step) + of_nat k * step) [0..<n]" for n
      by (simp add: upt_conv_Cons map_Suc_upt [symmetric] algebra_simps del: upt_Suc)
    ultimately show ?thesis
      using True le count by (subst amounts_from.simps) (simp del: upt_Suc)
  qed
qed

lemma amounts_from_no_step: "lo \<le> hi \<Longrightarrow> amounts_from hi 0 lo = None"
proof -
  assume le: "lo \<le> hi"
  have "amounts_from hi 0 lo \<noteq> Some ys" for ys
  proof (induction ys)
    case Nil
    with le show ?case by (subst amounts_from.simps) (auto simp: bind_eq_Some_conv)
  next
    case (Cons y ys)
    with le show ?case by (subst amounts_from.simps) (auto simp: bind_eq_Some_conv)
  qed
  then show ?thesis by (cases "amounts_from hi 0 lo") auto
qed

subsection \<open>Quotes\<close>

lemma value_in_Nil [simp]: "value_in [] p = False"
  by (cases p) (simp add: value_in_def split: option.split)

lemma not_forbidden [simp]: "\<not> route_uses_forbidden_dex q"
  by (simp add: route_uses_forbidden_dex_def hop_forbidden_def label_banned_def
      FORBIDDEN_DEX_LABELS_def FORBIDDEN_DEX_PROGRAM_IDS_def list_ex_iff split: option.splits)

text \<open>The pools of a leg.\<close>

definition pools :: "quote_response \<Rightarrow> string set" where
  "pools q = {k. \<exists>hop \<in> set (plan_hops (q_route_plan q)). amm_key hop = Some k}"

lemma routes_share_pool_iff: "routes_share_pool q1 q2 \<longleftrightarrow> pools q1 \<inter> pools q2 \<noteq> {}"
proof -
  have keys: "set (case as_array (q_route_plan q) of None \<Rightarrow> [] | Some hs \<Rightarrow> List.map_filter amm_key hs) =
      pools q" for q
    by (force simp: pools_def plan_hops_def map_filter_def split: option.splits)
  show ?thesis
    unfolding routes_share_pool_def Let_def
    by (auto simp: keys [of q1, symmetric] list_ex_iff pools_def [of q2]
        plan_hops_def split: option.splits)
qed


lemma judge_quotes_Some:
  assumes "judge_quotes mint amount direct min_profit q1 q2 ts m tm = (m', tm', Some p)"
  shows "parse_word (q_out_amount q2) = Some (qp_output_wsol p) \<and>
    unat amount + unat min_profit < unat (qp_output_wsol p) \<and>
    pools q1 \<inter> pools q2 = {} \<and>
    qp_quote1 p = q1 \<and> qp_quote2 p = q2 \<and> qp_token_mint p = mint \<and> qp_amount p = amount \<and>
    qp_only_direct p = direct \<and> qp_hop_count p = hops_of q1 + hops_of q2"
proof -
  have lt: "saturating_add amount min_profit < qp_output_wsol p"
    and out: "qp_output_wsol p = (case parse_word (q_out_amount q2) of Some v \<Rightarrow> v | None \<Rightarrow> 0)"
    and "pools q1 \<inter> pools q2 = {}"
    and "qp_quote1 p = q1" "qp_quote2 p = q2" "qp_token_mint p = mint" "qp_amount p = amount"
      "qp_only_direct p = direct" "qp_hop_count p = hops_of q1 + hops_of q2"
    using assms by (auto simp: judge_quotes_def Let_def not_le routes_share_pool_iff split: if_splits)
  moreover have "parse_word (q_out_amount q2) = Some (qp_output_wsol p)"
    using lt out by (auto split: option.splits)
  ultimately show ?thesis using less_saturating_add_imp [OF lt] by blast
qed

lemma quote_check_Some:
  assumes "quote_check quote mint amount direct min_profit m tm = (m', tm', Some p)"
  obtains q1 q2 t m1 tm1 where
    "quote WSOL_MINT mint amount direct = Ok q1" "parse_word (q_out_amount q1) = Some t" "0 < t"
    "quote mint WSOL_MINT t direct = Ok q2"
    "judge_quotes mint amount direct min_profit q1 q2 (tm_get tm mint) m1 tm1 = (m', tm', Some p)"
proof (cases "quote WSOL_MINT mint amount direct")
  case (Ok q1)
  show thesis
  proof (cases "parse_word (q_out_amount q1) :: u64 option")
    case None
    with Ok assms show thesis by (simp add: quote_check_def Let_def)
  next
    case (Some t)
    then show thesis
    proof (cases "0 < t \<and> (\<exists>q2. quote mint WSOL_MINT t direct = outcome.Ok q2)")
      case True
      then obtain q2 where "quote mint WSOL_MINT t direct = outcome.Ok q2" "0 < t" by blast
      with that [OF Ok Some] assms Ok Some show thesis by (simp add: quote_check_def Let_def)
    next
      case False
      with Ok Some assms show thesis
        by (cases "quote mint WSOL_MINT t direct"; cases "0 < t")
          (simp_all add: quote_check_def Let_def)
    qed
  qed
qed (use assms in \<open>simp_all add: quote_check_def Let_def\<close>)

subsection \<open>Token accounting\<close>

definition stat_ok :: "token_stat \<Rightarrow> bool" where
  "stat_ok s \<longleftrightarrow> q_sent s = 2 * (route_ok s + route_fail s) \<and>
     route_ok s = profitable s + not_profitable s"

text \<open>The two ways in which a check updates the statistics of its token.\<close>

definition fail_stat :: "token_stat \<Rightarrow> token_stat" where
  "fail_stat s = inc_route_fail (inc_q_sent s)"

definition judged_stat :: "bool \<Rightarrow> token_stat \<Rightarrow> token_stat" where
  "judged_stat good s =
     (if good then inc_profitable else inc_not_profitable) (inc_route_ok (inc_q_sent s))"

lemma stat_ok_updates:
  "stat_ok s \<Longrightarrow> stat_ok (fail_stat s)" "stat_ok s \<Longrightarrow> stat_ok (judged_stat good s)"
  "q_sent (fail_stat s) = q_sent s + 2" "q_sent (judged_stat good s) = q_sent s + 2"
  by (simp_all add: stat_ok_def fail_stat_def judged_stat_def inc_route_fail_def inc_q_sent_def
      inc_route_ok_def inc_profitable_def inc_not_profitable_def algebra_simps)

lemma tm_get_bound: "tm_get tm mint = Some i \<Longrightarrow> i < length (tm_stats tm)"
  by (auto simp: tm_get_def split: option.splits if_splits)

lemma bump_stat_twice:
  "tm_get tm mint = ts \<Longrightarrow> bump_stat ts f (bump_stat ts g tm) = bump_stat ts (\<lambda>s. f (g s)) tm"
  by (auto simp: bump_stat_def dest: tm_get_bound split: option.split)

lemma bump_stat_frame [simp]:
  "length (tm_stats (bump_stat ts f tm)) = length (tm_stats tm)"
  "tm_index (bump_stat ts f tm) = tm_index tm"
  by (simp_all add: bump_stat_def split: option.split)

lemma tm_get_bump_stat [simp]: "tm_get (bump_stat ts f tm) mint = tm_get tm mint"
  by (simp add: tm_get_def split: option.split)

text \<open>A check applies exactly one update, to its token only.\<close>

lemma quote_check_tokens:
  obtains f where "f \<in> {fail_stat, judged_stat True, judged_stat False}"
    "fst (snd (quote_check quote mint amount direct min_profit m tm)) =
       bump_stat (tm_get tm mint) f tm"
proof -
  let ?tm = "fst (snd (quote_check quote mint amount direct min_profit m tm))"
  have twice: "bump_stat (tm_get tm mint) g (bump_stat (tm_get tm mint) f tm) =
      bump_stat (tm_get tm mint) (\<lambda>s. g (f s)) tm" for f g
    by (rule bump_stat_twice) simp
  have thrice: "bump_stat (tm_get tm mint) h (bump_stat (tm_get tm mint) g
      (bump_stat (tm_get tm mint) f tm)) = bump_stat (tm_get tm mint) (\<lambda>s. h (g (f s))) tm" for f g h
    unfolding twice ..
  have judged: "fst (snd (judge_quotes mint amount direct min_profit q1 q2 (tm_get tm mint) m'
      (bump_stat (tm_get tm mint) inc_q_sent tm))) \<in>
    {bump_stat (tm_get tm mint) (judged_stat True) tm, bump_stat (tm_get tm mint) (judged_stat False) tm}"
    for q1 q2 m'
    by (simp add: judge_quotes_def Let_def thrice judged_stat_def [abs_def])
  have "?tm = bump_stat (tm_get tm mint) fail_stat tm \<or>
      ?tm \<in> {bump_stat (tm_get tm mint) (judged_stat True) tm,
              bump_stat (tm_get tm mint) (judged_stat False) tm}"
    unfolding quote_check_def Let_def
    using judged by (simp add: twice fail_stat_def [abs_def] split: outcome.split option.split)
  then show ?thesis using that by blast
qed

definition run_checks ::
  "quote_fn \<Rightarrow> u64 \<Rightarrow> (u64 \<times> string \<times> bool) list \<Rightarrow> metrics \<times> token_metrics \<Rightarrow> metrics \<times> token_metrics" where
  "run_checks quote min_profit checks =
     fold (\<lambda>(amount, mint, direct) (m, tm).
         (let (m, tm, _) = quote_check quote mint amount direct min_profit m tm in (m, tm)))
       checks"

lemma run_checks_Cons:
  "run_checks quote mp ((a, mint, d) # cs) (m, tm) =
     run_checks quote mp cs
       (fst (quote_check quote mint a d mp m tm), fst (snd (quote_check quote mint a d mp m tm)))"
  by (simp add: run_checks_def case_prod_unfold Let_def)

lemma run_checks_stats:
  assumes "\<And>s. s \<in> set (tm_stats tm) \<Longrightarrow> stat_ok s"
  shows "(\<forall>s \<in> set (tm_stats (snd (run_checks quote mp cs (m, tm)))). stat_ok s) \<and>
    length (tm_stats (snd (run_checks quote mp cs (m, tm)))) = length (tm_stats tm) \<and>
    (\<forall>i < length (tm_stats tm). q_sent (tm_stats (snd (run_checks quote mp cs (m, tm))) ! i) =
       q_sent (tm_stats tm ! i) +
       2 * of_nat (length (filter (\<lambda>(_, mint, _). tm_get tm mint = Some i) cs)))"
  using assms
proof (induction cs arbitrary: m tm)
  case Nil
  then show ?case by (simp add: run_checks_def)
next
  case (Cons c cs)
  obtain a mint d where c: "c = (a, mint, d)" by (cases c)
  obtain f where f: "f \<in> {fail_stat, judged_stat True, judged_stat False}"
    and tm: "fst (snd (quote_check quote mint a d mp m tm)) = bump_stat (tm_get tm mint) f tm"
    by (rule quote_check_tokens)
  let ?tm = "bump_stat (tm_get tm mint) f tm"
  have f_ok: "stat_ok s \<Longrightarrow> stat_ok (f s)" "q_sent (f s) = q_sent s + 2" for s
    using f stat_ok_updates by auto
  have ok: "stat_ok s" if "s \<in> set (tm_stats ?tm)" for s
  proof (cases "tm_get tm mint")
    case None
    with that Cons.prems show ?thesis by (simp add: bump_stat_def)
  next
    case (Some i)
    have "s \<in> insert (f (tm_stats tm ! i)) (set (tm_stats tm))"
      using that Some set_update_subset_insert [of "tm_stats tm" i "f (tm_stats tm ! i)"]
      by (auto simp: bump_stat_def)
    with Cons.prems f_ok(1) [of "tm_stats tm ! i"] tm_get_bound [OF Some] show ?thesis by auto
  qed
  have sent: "q_sent (tm_stats ?tm ! i) =
      q_sent (tm_stats tm ! i) + (if tm_get tm mint = Some i then 2 else 0)"
    if "i < length (tm_stats tm)" for i
    using that f_ok(2) by (auto simp: bump_stat_def nth_list_update split: option.split)
  show ?case
    using Cons.IH [OF ok, where m = "fst (quote_check quote mint a d mp m tm)"] sent
    by (simp add: c run_checks_Cons tm algebra_simps)
qed


subsection \<open>What one scanned pair does\<close>

text \<open>A decoded instruction fits the address space.\<close>

definition decodes_small :: "decoder \<Rightarrow> bool" where
  "decodes_small dec \<longleftrightarrow> (\<forall>s d. dec s = Some d \<longrightarrow> length d < 2 ^ 64)"

lemma serve_route_no_panic:
  assumes "template_wf dec sig t" and "decodes_small dec"
  shows "serve_route enc dec t a q \<noteq> Panic"
proof (cases "hm_get (rt_amount_variants t) a")
  case (Some v)
  then show ?thesis by (simp add: serve_route_def)
next
  case None
  let ?b64 = "ix_data (swap_instruction (rt_swap_ixs t))"
  let ?off = "Option.bind (dec ?b64)
    (\<lambda>d. discover_offsets d (rt_template_in_amount t) (rt_template_quoted_out t))"
  have offs: "rt_in_amount_offset t = map_option fst ?off" "rt_quoted_out_offset t = map_option snd ?off"
    using assms(1) by (simp_all add: template_wf_def Let_def)
  show ?thesis
  proof (cases ?off)
    case None
    with offs \<open>hm_get _ a = None\<close> show ?thesis by (simp add: serve_route_def)
  next
    case (Some ab)
    then obtain data a0 where data: "dec ?b64 = Some data"
      "discover_offsets data (rt_template_in_amount t) (rt_template_quoted_out t) = Some (a0, a0 + 8)"
      "ab = (a0, a0 + 8)"
      by (cases ab) (auto simp: bind_eq_Some_conv discover_offsets_iff)
    then have "template_of dec data t a0" using offs Some by (simp add: template_of_def)
    moreover have "length data < 2 ^ 64" using assms(2) data(1) by (simp add: decodes_small_def)
    ultimately show ?thesis using serve_route_patched [OF _ _ \<open>hm_get _ a = None\<close>]
      by fastforce
  qed
qed

lemma serve_template_cases:
  assumes "serve_template enc dec t s a fl n now st = Ok r"
  shows "(r = None \<and> serve_route enc dec t a fl = Err ()) \<or>
    (\<exists>ixs. serve_route enc dec t a fl = Ok ixs \<and>
       r = Some (push_to_queue ixs n now
         (st\<lparr>ps_metrics := (ps_metrics st)\<lparr>route_template_hit := route_template_hit (ps_metrics st) + 1,
              ix_from_ram := ix_from_ram (ps_metrics st) + 1,
              swap_ix_ok := swap_ix_ok (ps_metrics st) + 1\<rparr>,
            ps_store := record_route_hit s (ps_store st)\<rparr>)))"
  using assms by (simp add: serve_template_def Let_def split: outcome.splits)

text \<open>The state after serving \<open>ixs\<close> from memory.\<close>

definition served ::
  "swap_instructions_response \<Rightarrow> nat \<Rightarrow> instant \<Rightarrow> pipeline_state \<Rightarrow> pipeline_state \<Rightarrow> bool" where
  "served ixs n now st st' \<longleftrightarrow>
     (\<exists>s m. m = ps_metrics st \<and>
       st' = push_to_queue ixs n now
         (st\<lparr>ps_metrics := m\<lparr>route_template_hit := route_template_hit m + 1,
              ix_from_ram := ix_from_ram m + 1, swap_ix_ok := swap_ix_ok m + 1\<rparr>,
            ps_store := record_route_hit s (ps_store st)\<rparr>))"

lemma try_serve_cases:
  assumes "try_serve enc dec found hs a fl n now st = Ok (st', b)"
  shows "(\<not> b \<and> st' = st) \<or>
    (b \<and> (\<exists>t ixs. found = Some t \<and> serve_route enc dec t a fl = Ok ixs \<and> served ixs n now st st'))"
proof (cases found)
  case None
  with assms show ?thesis by (simp add: try_serve_def)
next
  case (Some t)
  with assms obtain r where r: "serve_template enc dec t (hs t) a fl n now st = Ok r"
    and "(st', b) = (case r of None \<Rightarrow> (st, False) | Some st' \<Rightarrow> (st', True))"
    by (auto simp: try_serve_def outcome_simps)
  with serve_template_cases [OF r] Some show ?thesis
    unfolding served_def by (auto split: option.splits)
qed

text \<open>Looking without serving runs store operations and moves the two hop counters only.\<close>

definition looked :: "decoder \<Rightarrow> pipeline_state \<Rightarrow> pipeline_state \<Rightarrow> bool" where
  "looked dec st st' \<longleftrightarrow>
     (\<exists>ops x y. st' = st\<lparr>ps_store := fold (run_op dec) ops (ps_store st),
        ps_metrics := (ps_metrics st)\<lparr>hop_template_all_hit := x, hop_template_missing := y\<rparr>\<rparr>)"

lemma looked_refl [simp]: "looked dec st st"
  unfolding looked_def
  by (rule exI [of _ "[]"], rule exI [of _ "hop_template_all_hit (ps_metrics st)"],
      rule exI [of _ "hop_template_missing (ps_metrics st)"]) simp

lemma looked_op: "looked dec st (st\<lparr>ps_store := run_op dec oper (ps_store st)\<rparr>)"
  unfolding looked_def
  by (rule exI [of _ "[oper]"], rule exI [of _ "hop_template_all_hit (ps_metrics st)"],
      rule exI [of _ "hop_template_missing (ps_metrics st)"]) simp

lemma looked_trans: "looked dec st st' \<Longrightarrow> looked dec st' st'' \<Longrightarrow> looked dec st st''"
proof -
  assume "looked dec st st'" "looked dec st' st''"
  then obtain ops x y ops' x' y' where
    1: "st' = st\<lparr>ps_store := fold (run_op dec) ops (ps_store st),
        ps_metrics := (ps_metrics st)\<lparr>hop_template_all_hit := x, hop_template_missing := y\<rparr>\<rparr>" and
    2: "st'' = st'\<lparr>ps_store := fold (run_op dec) ops' (ps_store st'),
        ps_metrics := (ps_metrics st')\<lparr>hop_template_all_hit := x', hop_template_missing := y'\<rparr>\<rparr>"
    unfolding looked_def by blast
  show ?thesis
    unfolding looked_def 2
    by (rule exI [of _ "ops @ ops'"], rule exI [of _ x'], rule exI [of _ y']) (simp add: 1)
qed

lemma tier1_cases:
  assumes "tier1 enc dec tc sig a fl n now st = Ok (st', b)"
  shows "\<exists>st1. looked dec st st1 \<and> ((\<not> b \<and> st' = st1) \<or> (b \<and> (\<exists>ixs. served ixs n now st1 st')))"
proof (cases "serve_route_enabled tc")
  case False
  with assms show ?thesis using looked_refl by (auto simp: tier1_def)
next
  case True
  obtain g found where get: "get_route sig (ps_store st) = (g, found)" by fastforce
  with True assms have "try_serve enc dec found (\<lambda>_. sig) a fl n now (st\<lparr>ps_store := g\<rparr>) = Ok (st', b)"
    by (simp add: tier1_def)
  moreover have "looked dec st (st\<lparr>ps_store := g\<rparr>)"
    using looked_op [of dec st "OpGet sig"] get by simp
  ultimately show ?thesis using try_serve_cases by blast
qed

lemma looked_counters [simp]:
  "looked dec st (st\<lparr>ps_metrics := (ps_metrics st)\<lparr>hop_template_all_hit := x\<rparr>\<rparr>)"
  "looked dec st (st\<lparr>ps_metrics := (ps_metrics st)\<lparr>hop_template_missing := y\<rparr>\<rparr>)"
  unfolding looked_def
  by (rule exI [of _ "[]"], rule exI [of _ x],
      rule exI [of _ "hop_template_missing (ps_metrics st)"], simp)
    (rule exI [of _ "[]"], rule exI [of _ "hop_template_all_hit (ps_metrics st)"],
      rule exI [of _ y], simp)

lemma tier2_cases:
  assumes "tier2 enc dec tc plan a fl n now st = Ok (st', b)"
  shows "\<exists>st1. looked dec st st1 \<and> ((\<not> b \<and> st' = st1) \<or> (b \<and> (\<exists>ixs. served ixs n now st1 st')))"
proof (cases "fst (check_hops plan (ps_store st)) \<and> serve_route_enabled tc")
  case False
  with assms have "\<not> b \<and> looked dec st st'"
    by (auto simp: tier2_def Let_def case_prod_unfold split: if_splits)
  then show ?thesis by blast
next
  case True
  let ?st = "st\<lparr>ps_metrics := (ps_metrics st)\<lparr>hop_template_all_hit :=
      hop_template_all_hit (ps_metrics st) + 1\<rparr>\<rparr>"
  obtain g found where get: "get_route_for_hops plan (ps_store st) = (g, found)" by fastforce
  with True assms
  have "try_serve enc dec found rt_route_signature a fl n now (?st\<lparr>ps_store := g\<rparr>) = Ok (st', b)"
    by (simp add: tier2_def Let_def case_prod_unfold)
  moreover have "looked dec ?st (?st\<lparr>ps_store := g\<rparr>)"
    using looked_op [of dec ?st "OpGetHops plan"] get by simp
  then have "looked dec st (?st\<lparr>ps_store := g\<rparr>)"
    using looked_trans looked_counters(1) by blast
  ultimately show ?thesis using try_serve_cases by blast
qed

text \<open>A scanned pair is dropped at once, or looked up and then served or passed to tier 3.\<close>

lemma scan_pair_cases:
  assumes "scan_pair enc dec tc now pair st = Ok (st', job)"
  obtains (multi) "qp_only_direct pair" "qp_hop_count pair \<noteq> 2" "job = None"
      "st' = st\<lparr>ps_metrics := (ps_metrics st)\<lparr>dropped_multi_hop := dropped_multi_hop (ps_metrics st) + 1,
         tx_dropped := tx_dropped (ps_metrics st) + 1\<rparr>\<rparr>"
    | (unmerged) "job = None"
      "st' = st\<lparr>ps_metrics := (ps_metrics st)\<lparr>dropped_merge_fail := dropped_merge_fail (ps_metrics st) + 1,
         tx_dropped := tx_dropped (ps_metrics st) + 1\<rparr>\<rparr>"
    | (served) st1 ixs where "looked dec st st1" "served ixs (qp_hop_count pair) now st1 st'" "job = None"
    | (unserved) st1 merged where "looked dec st st1"
      "merge_quotes (qp_quote1 pair) (qp_quote2 pair)
         (qp_amount pair + JITO_TIP_LAMPORTS + NETWORK_FEE_LAMPORTS) = Ok merged"
      "tier3 tc merged (route_sig (q_route_plan merged)) (qp_amount pair)
         (qp_amount pair + JITO_TIP_LAMPORTS + NETWORK_FEE_LAMPORTS) (qp_hop_count pair) st1 = (st', job)"
proof (cases "qp_only_direct pair \<and> qp_hop_count pair \<noteq> 2")
  case True
  with assms show ?thesis by (intro multi) (auto simp: scan_pair_def Let_def)
next
  case single: False
  let ?fl = "qp_amount pair + JITO_TIP_LAMPORTS + NETWORK_FEE_LAMPORTS"
  show ?thesis
  proof (cases "merge_quotes (qp_quote1 pair) (qp_quote2 pair) ?fl")
    case (Ok merged)
    let ?sig = "route_sig (q_route_plan merged)"
    from assms single Ok obtain s1 b1 where
      t1: "tier1 enc dec tc ?sig (qp_amount pair) ?fl (qp_hop_count pair) now st = outcome.Ok (s1, b1)"
      and rest: "(if b1 then outcome.Ok (s1, None) else
        bind_outcome (tier2 enc dec tc (q_route_plan merged) (qp_amount pair) ?fl (qp_hop_count pair) now s1)
          (\<lambda>(st, served). if served then outcome.Ok (st, None) else
            outcome.Ok (tier3 tc merged ?sig (qp_amount pair) ?fl (qp_hop_count pair) st))) =
        (outcome.Ok (st', job) :: (unit, _) outcome)"
      by (auto simp: scan_pair_def Let_def outcome_simps)
    show ?thesis
    proof (cases b1)
      case True
      with rest have "st' = s1" "job = None" by auto
      with True tier1_cases [OF t1] show ?thesis using served by blast
    next
      case False
      with tier1_cases [OF t1] have l1: "looked dec st s1" by blast
      from False rest obtain s2 b2 where
        t2: "tier2 enc dec tc (q_route_plan merged) (qp_amount pair) ?fl (qp_hop_count pair) now s1 =
          outcome.Ok (s2, b2)"
        and rest2: "(if b2 then outcome.Ok (s2, None) else
            outcome.Ok (tier3 tc merged ?sig (qp_amount pair) ?fl (qp_hop_count pair) s2)) =
          (outcome.Ok (st', job) :: (unit, _) outcome)"
        by (auto simp: outcome_simps)
      show ?thesis
      proof (cases b2)
        case True
        with rest2 have "st' = s2" "job = None" by auto
        with True tier2_cases [OF t2] show ?thesis using served looked_trans [OF l1] by blast
      next
        case False
        with tier2_cases [OF t2] have "looked dec st s2" using looked_trans [OF l1] by blast
        with False rest2 Ok show ?thesis by (intro unserved) auto
      qed
    qed
  qed (use assms single in \<open>auto simp: scan_pair_def Let_def intro: unmerged\<close>)
qed

text \<open>The outcomes of a scanned pair.\<close>

definition pair_queued :: "swap_instructions_response \<Rightarrow> quote_pair \<Rightarrow> instant \<Rightarrow>
    pipeline_state \<Rightarrow> pipeline_state \<Rightarrow> bool" where
  "pair_queued ixs pair now st st' \<longleftrightarrow>
     ps_lifo st' = ps_lifo st @ [\<lparr>ri_swap_ixs = ixs, ri_hop_count = qp_hop_count pair,
       ri_arrived_at = now, ri_waited_for_slot = False\<rparr>] \<and>
     ps_sem st' = ps_sem st + 1 \<and>
     queue_in (ps_metrics st') = queue_in (ps_metrics st) + 1 \<and>
     ix_from_ram (ps_metrics st') = ix_from_ram (ps_metrics st) + 1 \<and>
     tx_dropped (ps_metrics st') = tx_dropped (ps_metrics st) \<and>
     metis_req_sent (ps_metrics st') = metis_req_sent (ps_metrics st)"

definition scan_drops :: "metrics \<Rightarrow> u64" where
  "scan_drops m = dropped_multi_hop m + dropped_merge_fail m + dropped_no_serve m"

definition pair_dropped :: "pipeline_state \<Rightarrow> pipeline_state \<Rightarrow> bool" where
  "pair_dropped st st' \<longleftrightarrow>
     ps_lifo st' = ps_lifo st \<and> ps_sem st' = ps_sem st \<and>
     queue_in (ps_metrics st') = queue_in (ps_metrics st) \<and>
     tx_dropped (ps_metrics st') = tx_dropped (ps_metrics st) + 1 \<and>
     scan_drops (ps_metrics st') = scan_drops (ps_metrics st) + 1 \<and>
     metis_req_sent (ps_metrics st') = metis_req_sent (ps_metrics st)"

definition pair_requested :: "template_cache_config \<Rightarrow> quote_pair \<Rightarrow> swap_job \<Rightarrow>
    pipeline_state \<Rightarrow> pipeline_state \<Rightarrow> bool" where
  "pair_requested tc pair job st st' \<longleftrightarrow>
     serve_from_metis tc \<and>
     ps_lifo st' = ps_lifo st \<and> ps_sem st' = ps_sem st \<and>
     queue_in (ps_metrics st') = queue_in (ps_metrics st) \<and>
     tx_dropped (ps_metrics st') = tx_dropped (ps_metrics st) \<and>
     metis_req_sent (ps_metrics st') = metis_req_sent (ps_metrics st) + 1 \<and>
     merge_quotes (qp_quote1 pair) (qp_quote2 pair) (sj_floor job) = Ok (sj_merged job) \<and>
     sj_floor job = qp_amount pair + JITO_TIP_LAMPORTS + NETWORK_FEE_LAMPORTS \<and>
     sj_sig job = route_sig (q_route_plan (sj_merged job)) \<and>
     sj_amount job = qp_amount pair \<and> sj_hop_count job = qp_hop_count pair \<and>
     sj_save_new job = save_new tc"

lemma served_queued:
  "looked dec st st1 \<Longrightarrow> served ixs (qp_hop_count pair) now st1 st' \<Longrightarrow> pair_queued ixs pair now st st'"
  by (auto simp: served_def looked_def pair_queued_def push_to_queue_def Let_def)

lemma scan_pair_Ok:
  assumes "scan_pair enc dec tc now pair st = Ok (st', job)"
  shows "case job of
      Some j \<Rightarrow> pair_requested tc pair j st st'
    | None \<Rightarrow> (\<exists>ixs. pair_queued ixs pair now st st') \<or> pair_dropped st st'"
  using assms
proof (cases rule: scan_pair_cases)
  case (served st1 ixs)
  then show ?thesis using served_queued by fastforce
next
  case (unserved st1 merged)
  then show ?thesis
    by (auto simp: tier3_def Let_def looked_def pair_requested_def pair_dropped_def
        scan_drops_def split: if_splits)
qed (auto simp: pair_dropped_def scan_drops_def)

lemma scan_pair_store:
  assumes "scan_pair enc dec tc now pair st = Ok (st', job)"
  shows "\<exists>ops. ps_store st' = fold (run_op dec) ops (ps_store st)"
  using assms
proof (cases rule: scan_pair_cases)
  case (served st1 ixs)
  then obtain ops s where "ps_store st1 = fold (run_op dec) ops (ps_store st)"
    and "ps_store st' = record_route_hit s (ps_store st1)"
    by (auto simp: looked_def served_def push_to_queue_def Let_def)
  then have "ps_store st' = fold (run_op dec) (ops @ [OpHit s]) (ps_store st)" by simp
  then show ?thesis ..
next
  case (unserved st1 merged)
  then obtain ops where "ps_store st1 = fold (run_op dec) ops (ps_store st)"
    by (auto simp: looked_def)
  with unserved show ?thesis by (auto simp: tier3_def Let_def split: if_splits)
qed (auto intro: exI [of _ "[]"])

lemma finish_swap_job_store:
  "\<exists>ops. ps_store (finish_swap_job dec job r ms now st) = fold (run_op dec) ops (ps_store st)"
proof (cases "\<exists>ixs. r = Ok ixs \<and> sj_save_new job")
  case True
  then obtain ixs where "r = Ok ixs" "sj_save_new job" by blast
  then have "ps_store (finish_swap_job dec job r ms now st) =
      fold (run_op dec)
        [OpInsert (sj_sig job) ixs (sj_amount job) (sj_floor job) (q_route_plan (sj_merged job)),
         OpRecord (q_route_plan (sj_merged job)) (sj_context_slot job)] (ps_store st)"
    by (simp add: finish_swap_job_def push_to_queue_def Let_def)
  then show ?thesis ..
next
  case False
  then show ?thesis
    by (auto simp: finish_swap_job_def push_to_queue_def Let_def intro: exI [of _ "[]"]
        split: outcome.split)
qed

lemma fold_run_op_keeps:
  assumes "store_inv dec g"
  shows "store_inv dec (fold (run_op dec) ops g)"
    and "within_cap g \<Longrightarrow> within_cap (fold (run_op dec) ops g)"
  using assms by (induction ops arbitrary: g) (simp_all add: run_op_keeps)


subsection \<open>A scanned pair never panics\<close>

lemma get_route_wf:
  assumes "store_inv dec g" and "snd (get_route sig g) = Some t"
  shows "template_wf dec sig t"
proof -
  obtain t0 where "lookup_route g sig = Some t0" "t = t0 \<or> t = bump_hit t0"
    using assms(2) by (auto simp: get_route_result lookup_route_def split: option.splits)
  with assms(1) show ?thesis by (auto simp: store_inv_def templates_ok_def)
qed

lemma get_route_for_hops_wf:
  assumes "store_inv dec g" and "snd (get_route_for_hops plan g) = Some t"
  shows "\<exists>sig. template_wf dec sig t"
  using assms get_route_for_hops_cases [of plan g] get_route_wf by force

lemma try_serve_total:
  assumes "\<And>t. found = Some t \<Longrightarrow> \<exists>sig. template_wf dec sig t"
    and "decodes_small dec"
  shows "\<exists>st' b. try_serve enc dec found hs a fl n now st = Ok (st', b)"
proof (cases found)
  case None
  then show ?thesis by (auto simp: try_serve_def)
next
  case (Some t)
  with assms have "serve_route enc dec t a fl \<noteq> Panic" using serve_route_no_panic by blast
  then obtain r where "serve_template enc dec t (hs t) a fl n now st = Ok r"
    by (cases "serve_route enc dec t a fl") (simp_all add: serve_template_def Let_def)
  with Some show ?thesis by (cases r) (auto simp: try_serve_def)
qed

lemma tier1_total:
  assumes "store_inv dec (ps_store st)" and "decodes_small dec"
  shows "\<exists>st' b. tier1 enc dec tc sig a fl n now st = Ok (st', b)"
proof (cases "serve_route_enabled tc")
  case True
  obtain g found where get: "get_route sig (ps_store st) = (g, found)" by fastforce
  then have "\<exists>sig. template_wf dec sig t" if "found = Some t" for t
    using that get_route_wf [OF assms(1)] by (metis snd_conv)
  from try_serve_total [where found = found, OF this assms(2)] True get show ?thesis
    by (simp add: tier1_def)
qed (auto simp: tier1_def)

lemma tier2_total:
  assumes "store_inv dec (ps_store st)" and "decodes_small dec"
  shows "\<exists>st' b. tier2 enc dec tc plan a fl n now st = Ok (st', b)"
proof (cases "fst (check_hops plan (ps_store st)) \<and> serve_route_enabled tc")
  case True
  obtain g found where get: "get_route_for_hops plan (ps_store st) = (g, found)" by fastforce
  then have "\<exists>sig. template_wf dec sig t" if "found = Some t" for t
    using that get_route_for_hops_wf [OF assms(1)] by (metis snd_conv)
  from try_serve_total [where found = found, OF this assms(2)] True get show ?thesis
    by (simp add: tier2_def Let_def case_prod_unfold)
next
  case False
  then show ?thesis by (auto simp: tier2_def Let_def case_prod_unfold)
qed

lemma looked_store_inv:
  "looked dec st st1 \<Longrightarrow> store_inv dec (ps_store st) \<Longrightarrow> store_inv dec (ps_store st1)"
  by (auto simp: looked_def fold_run_op_keeps)

lemma scan_pair_total:
  assumes "store_inv dec (ps_store st)" and "decodes_small dec"
  shows "\<exists>st' job. scan_pair enc dec tc now pair st = Ok (st', job)"
proof -
  let ?fl = "qp_amount pair + JITO_TIP_LAMPORTS + NETWORK_FEE_LAMPORTS"
  show ?thesis
  proof (cases "merge_quotes (qp_quote1 pair) (qp_quote2 pair) ?fl")
    case (Ok merged)
    let ?sig = "route_sig (q_route_plan merged)"
    obtain s1 b1 where t1:
      "tier1 enc dec tc ?sig (qp_amount pair) ?fl (qp_hop_count pair) now st = outcome.Ok (s1, b1)"
      using tier1_total [OF assms] by blast
    have "store_inv dec (ps_store s1)" if "\<not> b1"
      using tier1_cases [OF t1] that looked_store_inv [OF _ assms(1)] by blast
    then have "\<not> b1 \<Longrightarrow> \<exists>s2 b2. tier2 enc dec tc (q_route_plan merged) (qp_amount pair) ?fl
        (qp_hop_count pair) now s1 = outcome.Ok (s2, b2)"
      using tier2_total [OF _ assms(2)] by blast
    with Ok t1 show ?thesis
      by (cases b1) (auto simp: scan_pair_def Let_def)
  next
    case Panic
    then show ?thesis using merge_quotes_not_Panic by blast
  qed (simp add: scan_pair_def Let_def)
qed

subsection \<open>The counters add up\<close>

definition counters_ok :: "metrics \<Rightarrow> bool" where
  "counters_ok m \<longleftrightarrow>
     swap_ix_failed m = swap_ix_timeout m + swap_ix_http m + swap_ix_network m + swap_ix_parse m \<and>
     swap_ix_ok m = ix_from_ram m + ix_from_metis m \<and>
     ix_from_ram m = route_template_hit m \<and>
     queue_in m = swap_ix_ok m \<and>
     tx_dropped m = scan_drops m + swap_ix_failed m + dropped_stale m + tx_build_failed m +
       tx_too_large m + dropped_account_locks m + jito_send_failed m"

named_theorems counters_keep "steps that keep the counters consistent"

lemma counters_ok_new [simp]: "counters_ok new_metrics"
  by (simp add: counters_ok_def new_metrics_def scan_drops_def)

lemma counters_ok_quote_check [counters_keep]:
  "counters_ok (fst (quote_check quote mint a d mp m tm)) = counters_ok m"
  by (simp add: quote_check_def judge_quotes_def Let_def counters_ok_def scan_drops_def
      split: outcome.split option.split)

lemma counters_ok_push:
  "counters_ok (m\<lparr>queue_in := queue_in m + 1, queue_depth := d\<rparr>) \<Longrightarrow> ps_metrics st = m \<Longrightarrow>
   d = queue_depth m + 1 \<Longrightarrow> counters_ok (ps_metrics (push_to_queue ixs n now st))"
  by (simp add: push_to_queue_def Let_def)

lemma counters_ok_looked [counters_keep]:
  "looked dec st st' \<Longrightarrow> counters_ok (ps_metrics st) \<Longrightarrow> counters_ok (ps_metrics st')"
  by (auto simp: looked_def counters_ok_def scan_drops_def)

lemma counters_ok_served [counters_keep]:
  "served ixs n now st st' \<Longrightarrow> counters_ok (ps_metrics st) \<Longrightarrow> counters_ok (ps_metrics st')"
  by (auto simp: served_def push_to_queue_def Let_def counters_ok_def scan_drops_def)

lemma counters_ok_scan_pair [counters_keep]:
  assumes "scan_pair enc dec tc now pair st = Ok (st', job)" and "counters_ok (ps_metrics st)"
  shows "counters_ok (ps_metrics st')"
  using assms(1)
proof (cases rule: scan_pair_cases)
  case (served st1 ixs)
  with assms(2) show ?thesis by (blast intro: counters_keep)
next
  case (unserved st1 merged)
  with assms(2) have "counters_ok (ps_metrics st1)" by (blast intro: counters_keep)
  with unserved(3) show ?thesis
    by (auto simp: tier3_def Let_def counters_ok_def scan_drops_def split: if_splits)
qed (use assms(2) in \<open>simp_all add: counters_ok_def scan_drops_def\<close>)

lemma counters_ok_finish [counters_keep]:
  assumes "counters_ok (ps_metrics st)"
  shows "counters_ok (ps_metrics (finish_swap_job dec job r ms now st))"
proof (cases r)
  case (Ok ixs)
  with assms show ?thesis
    by (simp add: finish_swap_job_def push_to_queue_def Let_def counters_ok_def scan_drops_def)
next
  case (Err e)
  with assms show ?thesis
    by (cases e) (simp_all add: finish_swap_job_def Let_def counters_ok_def scan_drops_def)
next
  case Panic
  with assms show ?thesis by (simp add: finish_swap_job_def Let_def)
qed


subsection \<open>A route fetched once is served from memory\<close>

lemma finish_swap_job_variant:
  assumes "sj_save_new job" and "variant (ps_store st) (sj_sig job) (sj_amount job) = None"
  shows "\<exists>t. snd (get_route (sj_sig job) (ps_store (finish_swap_job dec job (Ok ixs) ms now st))) = Some t \<and>
    serve_route enc dec t (sj_amount job) fl = Ok ixs"
  using assms rc.remembers [where slot = "sj_context_slot job" and plan = "q_route_plan (sj_merged job)"]
  by (simp add: finish_swap_job_def push_to_queue_def Let_def)

lemma tier1_serves:
  assumes "serve_route_enabled tc" and "snd (get_route sig (ps_store st)) = Some t"
    and "serve_route enc dec t a fl = Ok ixs"
  shows "\<exists>st1 st'. tier1 enc dec tc sig a fl n now st = Ok (st', True) \<and>
    looked dec st st1 \<and> served ixs n now st1 st'"
proof -
  obtain g where get: "get_route sig (ps_store st) = (g, Some t)"
    using assms(2) by (metis prod.collapse)
  then have "looked dec st (st\<lparr>ps_store := g\<rparr>)" using looked_op [of dec st "OpGet sig"] by simp
  moreover have "\<exists>st'. tier1 enc dec tc sig a fl n now st = Ok (st', True) \<and>
      served ixs n now (st\<lparr>ps_store := g\<rparr>) st'"
    using assms(1,3) get by (auto simp: tier1_def try_serve_def serve_template_def Let_def served_def)
  ultimately show ?thesis by blast
qed

lemma scan_pair_tier1:
  assumes "\<not> (qp_only_direct pair \<and> qp_hop_count pair \<noteq> 2)"
    and "fl = qp_amount pair + JITO_TIP_LAMPORTS + NETWORK_FEE_LAMPORTS"
    and "merge_quotes (qp_quote1 pair) (qp_quote2 pair) fl = Ok merged"
    and "tier1 enc dec tc (route_sig (q_route_plan merged)) (qp_amount pair) fl (qp_hop_count pair) now st =
      Ok (st', True)"
  shows "scan_pair enc dec tc now pair st = Ok (st', None)"
  using assms by (auto simp: scan_pair_def Let_def)

lemma requested_not_direct_multi:
  "scan_pair enc dec tc now pair st = Ok (st', Some job) \<Longrightarrow>
   \<not> (qp_only_direct pair \<and> qp_hop_count pair \<noteq> 2)"
  by (rule notI) (simp add: scan_pair_def Let_def)

lemma all_pairs_total:
  assumes "0 < step" and "unat hi + unat step < 2 ^ 64" and "lo \<le> hi"
  shows "\<exists>pairs. all_pairs tokens lo hi step = Some pairs"
  using amounts_from_nat [OF assms(1,2), of lo] assms(3) by (simp add: all_pairs_def word_le_nat_alt)

subsection \<open>Properties\<close>


definition sample_quotes :: quote_fn where
  "sample_quotes inp outp amount direct =
     Ok (sample_quote inp outp (if inp = WSOL_MINT then ''2'' else ''9'') [])"

lemma parse_2_9: "parse_word ''2'' = Some (2 :: u64)" "parse_word ''9'' = Some (9 :: u64)"
  by (simp_all add: parse_word_def parse_uint_def char_digit_def Let_def)

lemma sample_check:
  "\<exists>m tm p. quote_check sample_quotes ''T'' 1 False 3 new_metrics (new_token_metrics [''T'']) = (m, tm, Some p)"
  by (simp add: quote_check_def sample_quotes_def sample_quote_def parse_2_9 judge_quotes_def Let_def
      WSOL_MINT_def saturating_add_def routes_share_pool_def map_filter_simps)


text \<open>C35: However many checks are run, in whatever order and with whatever answers, the counters
  of every token stay consistent: two requests are counted per check of the token, each check
  is counted once as failed or answered, and each answered one once as profitable or not.\<close>

theorem token_counters_consistent:
  assumes "tm' = snd (run_checks quote min_profit checks (m, new_token_metrics mints))"
    and "i < length mints"
  shows "stat_ok (tm_stats tm' ! i) \<and>
    q_sent (tm_stats tm' ! i) = 2 * of_nat (length (filter
      (\<lambda>(_, mint, _). tm_get (new_token_metrics mints) mint = Some i) checks))"
proof -
  have "stat_ok s" if "s \<in> set (tm_stats (new_token_metrics mints))" for s
    using that by (auto simp: stat_ok_def zero_stat_def)
  then have all_ok: "\<And>s. s \<in> set (tm_stats (new_token_metrics mints)) \<Longrightarrow> stat_ok s" .
  from run_checks_stats [where tm = "new_token_metrics mints", OF all_ok, where quote = quote and mp = min_profit and cs = checks and m = m] assms show ?thesis
    by (auto simp: zero_stat_def)
qed

theorem token_counters_consistent_witness:
  "stat_ok (tm_stats (snd (run_checks sample_quotes 3 [(1, ''T'', False), (1, ''T'', True)]
     (new_metrics, new_token_metrics [''T'']))) ! 0)"
  using token_counters_consistent [OF refl, of 0 "[''T'']"] by simp

text \<open>C21: The loop over amounts returns, and yields exactly the amounts from the minimum to the
  maximum in equal steps, whenever the step is positive and the last addition does not
  overflow; the list then has one free and one direct entry per amount and token.\<close>

theorem all_pairs_complete:
  assumes "0 < step" and "unat hi + unat step < 2 ^ 64" and "lo \<le> hi"
  shows "\<exists>pairs. all_pairs tokens lo hi step = Some pairs \<and>
    length pairs = 2 * length tokens * ((unat hi - unat lo) div unat step + 1) \<and>
    set pairs = {(lo + of_nat k * step, token, direct) | k token direct.
      k \<le> (unat hi - unat lo) div unat step \<and> token \<in> set tokens}"
proof -
  let ?n = "(unat hi - unat lo) div unat step + 1"
  let ?as = "map (\<lambda>k. lo + of_nat k * step) [0..<?n]"
  have "all_pairs tokens lo hi step = Some (concat (map (pairs_of tokens) ?as))"
    using amounts_from_nat [OF assms(1,2), of lo] assms(3)
    by (simp add: all_pairs_def word_le_nat_alt del: upt_Suc)
  moreover have "length (pairs_of tokens a) = 2 * length tokens" for a
    by (induction tokens) (simp_all add: pairs_of_def)
  then have "length (concat (map (pairs_of tokens) xs)) = length xs * (2 * length tokens)" for xs
    by (induction xs) simp_all
  then have "length (concat (map (pairs_of tokens) ?as)) = length ?as * (2 * length tokens)"
    by blast
  then have "length (concat (map (pairs_of tokens) ?as)) = 2 * length tokens * ?n"
    by (simp only: length_map length_upt diff_zero mult.commute)
  moreover have "set (pairs_of tokens a) = {(a, token, direct) | token direct. token \<in> set tokens}" for a
    by (auto simp: pairs_of_def)
  then have "set (concat (map (pairs_of tokens) ?as)) =
    {(lo + of_nat k * step, token, direct) | k token direct.
      k \<le> (unat hi - unat lo) div unat step \<and> token \<in> set tokens}"
    by (auto simp: less_Suc_eq_le simp del: upt_Suc)
  ultimately show ?thesis by blast
qed

theorem all_pairs_complete_witness:
  "\<exists>pairs. all_pairs [''A''] 10 30 10 = Some pairs \<and> length pairs = 6"
  using all_pairs_complete [of 10 30 10 "[''A'']"] by auto

definition no_dec :: decoder where
  "no_dec s = None"

lemma template_wf_sig: "template_wf dec sig t \<Longrightarrow> rt_route_signature t = sig"
  by (simp add: template_wf_def)

lemma template_wf_offsets:
  assumes "template_wf dec sig t"
  shows "case rt_in_amount_offset t of
      None \<Rightarrow> rt_quoted_out_offset t = None
    | Some i \<Rightarrow> rt_quoted_out_offset t = Some (i + 8) \<and>
        (\<exists>d. dec (ix_data (swap_instruction (rt_swap_ixs t))) = Some d \<and> i + 16 \<le> length d)"
proof -
  let ?b64 = "ix_data (swap_instruction (rt_swap_ixs t))"
  let ?off = "Option.bind (dec ?b64)
    (\<lambda>d. discover_offsets d (rt_template_in_amount t) (rt_template_quoted_out t))"
  have offs: "rt_in_amount_offset t = map_option fst ?off" "rt_quoted_out_offset t = map_option snd ?off"
    using assms by (simp_all add: template_wf_def Let_def)
  show ?thesis
  proof (cases ?off)
    case (Some ab)
    then obtain d a where "dec ?b64 = Some d" "ab = (a, a + 8)"
      "discover_offsets d (rt_template_in_amount t) (rt_template_quoted_out t) = Some (a, a + 8)"
      by (cases ab) (auto simp: bind_eq_Some_conv discover_offsets_iff)
    with offs Some show ?thesis
      by (auto simp: discover_offsets_iff unique_def pair_at_def amount_at_def)
  qed (simp add: offs)
qed



text \<open>C9: In a well-formed store a profitable pair is always processed without a panic, with
  exactly one outcome: queued from memory, dropped and counted under one reason, or handed
  to the routing engine (only if that is enabled) with the merged quote at the floor.\<close>

theorem scan_pair_outcomes:
  assumes "store_inv dec (ps_store st)" and "decodes_small dec"
  shows "\<exists>st' job. scan_pair enc dec tc now pair st = Ok (st', job) \<and>
    store_inv dec (ps_store st') \<and>
    (case job of
       Some j \<Rightarrow> pair_requested tc pair j st st'
     | None \<Rightarrow> (\<exists>ixs. pair_queued ixs pair now st st') \<or> pair_dropped st st')"
proof -
  obtain st' job where r: "scan_pair enc dec tc now pair st = Ok (st', job)"
    using scan_pair_total [OF assms] by blast
  moreover have "store_inv dec (ps_store st')"
    using scan_pair_store [OF r] fold_run_op_keeps(1) [OF assms(1)] by auto
  ultimately show ?thesis using scan_pair_Ok [OF r] by blast
qed

definition sample_state :: pipeline_state where
  "sample_state = \<lparr>ps_store = new_store, ps_metrics = new_metrics, ps_lifo = [], ps_sem = 0\<rparr>"

definition sample_pair :: quote_pair where
  "sample_pair = \<lparr>qp_token_mint = ''T'', qp_amount = 100, qp_output_wsol = 9000, qp_net_profit = 2300,
     qp_quote1 = sample_quote ''W'' ''T'' ''200'' [], qp_quote2 = sample_quote ''T'' ''W'' ''9000'' [],
     qp_hop_count = 2, qp_only_direct = True, qp_is_pmm = False\<rparr>"

theorem scan_pair_outcomes_witness:
  "\<exists>st' job. scan_pair plain_enc no_dec default_template_cache_config 0 sample_pair sample_state =
     Ok (st', job) \<and> store_inv no_dec (ps_store st')"
  using scan_pair_outcomes [of no_dec sample_state plain_enc default_template_cache_config 0 sample_pair]
  by (auto simp: sample_state_def decodes_small_def no_dec_def)

text \<open>C6: Once the routing engine has answered the request that a pair spawned and its route was
  saved, scanning the same pair again (with serving enabled) is answered from memory with
  exactly those instructions: nothing is requested, and the store may have been used by
  others in between the request and its answer.\<close>

theorem second_scan_from_memory:
  assumes "scan_pair enc dec tc now pair st = Ok (st1, Some job)"
    and "save_new tc" and "serve_route_enabled tc"
    and "variant (ps_store st2) (sj_sig job) (sj_amount job) = None"
  shows "\<exists>st3. scan_pair enc dec tc now' pair (finish_swap_job dec job (Ok ixs) ms now2 st2) =
      Ok (st3, None) \<and>
    pair_queued ixs pair now' (finish_swap_job dec job (Ok ixs) ms now2 st2) st3"
proof -
  let ?st = "finish_swap_job dec job (Ok ixs) ms now2 st2"
  have req: "pair_requested tc pair job st st1" using scan_pair_Ok [OF assms(1)] by simp
  then have job: "sj_save_new job" "sj_amount job = qp_amount pair"
    "sj_sig job = route_sig (q_route_plan (sj_merged job))"
    "merge_quotes (qp_quote1 pair) (qp_quote2 pair) (sj_floor job) = Ok (sj_merged job)"
    "sj_floor job = qp_amount pair + JITO_TIP_LAMPORTS + NETWORK_FEE_LAMPORTS"
    using assms(2) by (auto simp only: pair_requested_def)
  obtain t where "snd (get_route (sj_sig job) (ps_store ?st)) = Some t"
    "serve_route enc dec t (qp_amount pair) (sj_floor job) = Ok ixs"
    using finish_swap_job_variant [OF job(1) assms(4), of dec ixs ms now2 enc "sj_floor job"] job(2) by auto
  from tier1_serves [OF assms(3) this] obtain s1 st3 where
    t1: "tier1 enc dec tc (sj_sig job) (qp_amount pair) (sj_floor job) (qp_hop_count pair) now' ?st =
      Ok (st3, True)" and "looked dec ?st s1" "served ixs (qp_hop_count pair) now' s1 st3"
    by blast
  then have "pair_queued ixs pair now' ?st st3" by (blast intro: served_queued)
  moreover have "scan_pair enc dec tc now' pair ?st = Ok (st3, None)"
    using requested_not_direct_multi [OF assms(1)] job(5,4) t1 [unfolded job(3)]
    by (rule scan_pair_tier1)
  ultimately show ?thesis by blast
qed

definition serving_config :: template_cache_config where
  "serving_config = \<lparr>save_new = True, serve_route_enabled = True, serve_from_metis = True\<rparr>"

lemma sample_requested:
  "\<exists>st1 job. scan_pair plain_enc no_dec serving_config 0 sample_pair sample_state = Ok (st1, Some job)"
  by (simp add: serving_config_def scan_pair_def sample_pair_def sample_state_def sample_quote_def
      merge_quotes_def Let_def tier1_def tier2_def tier3_def try_serve_def get_route_def
      get_route_read_def new_store_def check_hops_def get_route_for_hops_def pair_key_def hm_contains_def)

theorem second_scan_from_memory_witness:
  "\<exists>st1 job st3. scan_pair plain_enc no_dec serving_config 0 sample_pair sample_state = Ok (st1, Some job) \<and>
     scan_pair plain_enc no_dec serving_config 5 sample_pair
       (finish_swap_job no_dec job (Ok (sample_swap ''d'')) 7 3 sample_state) = Ok (st3, None)"
proof -
  obtain st1 job where job: "scan_pair plain_enc no_dec serving_config 0 sample_pair sample_state =
     Ok (st1, Some job)" using sample_requested by blast
  have free: "variant (ps_store sample_state) (sj_sig job) (sj_amount job) = None"
    by (simp add: sample_state_def variant_def lookup_route_def new_store_def)
  have on: "save_new serving_config" "serve_route_enabled serving_config"
    by (simp_all add: serving_config_def)
  have "\<exists>st3. scan_pair plain_enc no_dec serving_config 5 sample_pair
      (finish_swap_job no_dec job (Ok (sample_swap ''d'')) 7 3 sample_state) = Ok (st3, None)"
    using second_scan_from_memory [OF job on free] by blast
  with job show ?thesis by blast
qed

end
