(* ===== verification/Caches.thy ===== *)
theory Caches
  imports HashMaps RustStrings
begin

text \<open>
  The caches in front of the chain's RPC node: the lookup-table cache
  (\<open>src/src/alt_cache.rs\<close>, with \<open>deserialize_alt_addresses\<close> and the tip accounts of
  \<open>src/src/transaction.rs\<close>, and the loader binary \<open>src/src/bin/alt_loader.rs\<close>), the account
  cache with its update stream (\<open>src/src/account_cache.rs\<close>) and the blockhash cache
  (\<open>src/src/blockhash_cache.rs\<close>).  The locale \<open>read_through\<close> is the contract of a cache that
  fetches on a miss; both fetching caches are interpretations of it.  The RPC node and the
  base58 parser are arguments.
\<close>

type_synonym pubkey = bytes
type_synonym parser = "string \<Rightarrow> pubkey option"

record account =
  acc_lamports :: u64
  acc_data :: bytes
  acc_owner :: pubkey
  acc_executable :: bool
  acc_rent_epoch :: u64

type_synonym rpc = "pubkey \<Rightarrow> account option"

subsection \<open>Address lookup tables\<close>

definition JITO_TIP_ACCOUNTS :: "string list" where
  "JITO_TIP_ACCOUNTS = [
     ''96gYZGLnJYVFmbjzopPSU6QiEV5fGqZNyN9nmNhvrZU5'',
     ''HFqU5x63VTqvQss8hp11i4wVV8bD44PvwucfZ2bU7gRe'',
     ''Cw8CFyM9FkoMi7K7Crf6HNQqf4uEMzpKw6QNghXLvLkY'',
     ''ADaUMid9yfUytqMBgopwjb2DTLSokTSzL1zt6iGPaS49'',
     ''DfXygSm4jCyNCybVYYK6DwvWqjKee8pbDmJGcLWNDXjh'',
     ''ADuUkR4vqLUMWXxW9gh6D6L8pMSawimctcNZ5pGwDcEt'',
     ''DttWaMuVvTiduZRnguLF7jNxTgiMBZ1hyAumKUiL2KRL'',
     ''3AVi9Tg9Uo68tJfuvoKvqKNWKkC5wPdSSdeBnizKZ6jT'']"

definition jito_tip_pubkeys :: "parser \<Rightarrow> pubkey list" where
  "jito_tip_pubkeys parse = List.map_filter parse JITO_TIP_ACCOUNTS"

definition chunks_exact :: "nat \<Rightarrow> 'a list \<Rightarrow> 'a list list" where
  "chunks_exact n xs = map (\<lambda>i. take n (drop (i * n) xs)) [0..<length xs div n]"

datatype fetch_error = RpcFailed pubkey | AltTooShort nat | AltBadLength nat | AltBadKey string

definition HEADER_SIZE :: nat where
  "HEADER_SIZE = 56"

definition deserialize_alt_addresses :: "bytes \<Rightarrow> (fetch_error, pubkey list) outcome" where
  "deserialize_alt_addresses data =
     (if length data < HEADER_SIZE then Err (AltTooShort (length data))
      else
        let addresses_data = drop HEADER_SIZE data
        in if length addresses_data mod 32 \<noteq> 0 then Err (AltBadLength (length addresses_data))
           else Ok (chunks_exact 32 addresses_data))"

record lookup_table =
  alt_key :: pubkey
  alt_addresses :: "pubkey list"

record alt_cache =
  ac_inner :: "(pubkey, lookup_table) hmap"
  ac_tips :: "pubkey list"

definition new_alt_cache :: "pubkey list \<Rightarrow> alt_cache" where
  "new_alt_cache tips = \<lparr>ac_inner = [], ac_tips = tips\<rparr>"

definition alt_get_or_fetch ::
  "rpc \<Rightarrow> pubkey \<Rightarrow> alt_cache \<Rightarrow> alt_cache \<times> (fetch_error, lookup_table) outcome" where
  "alt_get_or_fetch rpc pubkey c =
     (case hm_get (ac_inner c) pubkey of
        Some alt \<Rightarrow> (c, Ok alt)
      | None \<Rightarrow>
          (case rpc pubkey of
             None \<Rightarrow> (c, Err (RpcFailed pubkey))
           | Some a \<Rightarrow>
               (case deserialize_alt_addresses (acc_data a) of
                  Ok addresses \<Rightarrow>
                    (let alt = \<lparr>alt_key = pubkey,
                                alt_addresses = filter (\<lambda>addr. addr \<notin> set (ac_tips c)) addresses\<rparr>
                     in (c\<lparr>ac_inner := hm_insert pubkey alt (ac_inner c)\<rparr>, Ok alt))
                | Err e \<Rightarrow> (c, Err e)
                | Panic \<Rightarrow> (c, Panic))))"

definition alt_clear :: "alt_cache \<Rightarrow> alt_cache" where
  "alt_clear c = c\<lparr>ac_inner := []\<rparr>"

text \<open>\<open>alt_loader\<close>: the loader's own copy of the fetch, without cache or tip filter, and the
  counts of its main loop.\<close>

definition JUPITER_ALTS :: "string list" where
  "JUPITER_ALTS = [
     ''3AL7kDjdMADqmDc1piGtDuWzQfbFqXzV8YxTJ8G6qpump'',
     ''GbPYrQEDYV9Bn4Kp9oT3h5sQSYFpwLyhpD7PJE8xgRHX'',
     ''CRaGFDCkqdPB7FnJpJfzvvRoEeT9pqxFXFoipPxZ7Jst'',
     ''DRpbCBLoTZy9XyZKJxMcmFA3AJR45mNqRhC5SkraShyc'',
     ''FTpcGfsvXwGRcqjSaBNoxNYFSYeKgQVCuKtHkRvxXtpu'']"

definition load_alt :: "parser \<Rightarrow> rpc \<Rightarrow> string \<Rightarrow> (fetch_error, lookup_table) outcome" where
  "load_alt parse rpc alt_pubkey =
     bind_outcome (of_option (AltBadKey alt_pubkey) (parse alt_pubkey)) (\<lambda>pk.
     bind_outcome (of_option (RpcFailed pk) (rpc pk)) (\<lambda>a.
     bind_outcome (deserialize_alt_addresses (acc_data a)) (\<lambda>addresses.
       Ok \<lparr>alt_key = pk, alt_addresses = addresses\<rparr>)))"

definition alt_loader_summary :: "parser \<Rightarrow> rpc \<Rightarrow> nat \<times> nat" where
  "alt_loader_summary parse rpc =
     fold (\<lambda>alt_addr (success, failed).
         (if is_ok (load_alt parse rpc alt_addr) then (success + 1, failed) else (success, failed + 1)))
       JUPITER_ALTS (0, 0)"

subsection \<open>The account cache\<close>

record account_cache =
  cc_inner :: "(pubkey, account) hmap"
  cc_stream_slot :: u64

definition new_account_cache :: account_cache where
  "new_account_cache = \<lparr>cc_inner = [], cc_stream_slot = 0\<rparr>"

definition seed_slot :: "u64 \<Rightarrow> account_cache \<Rightarrow> account_cache" where
  "seed_slot slot c = c\<lparr>cc_stream_slot := slot\<rparr>"

definition cache_get :: "account_cache \<Rightarrow> pubkey \<Rightarrow> account option" where
  "cache_get c pk = hm_get (cc_inner c) pk"

definition cache_get_or_fetch ::
  "rpc \<Rightarrow> pubkey \<Rightarrow> account_cache \<Rightarrow> account_cache \<times> (fetch_error, account) outcome" where
  "cache_get_or_fetch rpc pk c =
     (case cache_get c pk of
        Some a \<Rightarrow> (c, Ok a)
      | None \<Rightarrow>
          (case rpc pk of
             None \<Rightarrow> (c, Err (RpcFailed pk))
           | Some a \<Rightarrow> (c\<lparr>cc_inner := hm_insert pk a (cc_inner c)\<rparr>, Ok a)))"

definition prefetch :: "rpc \<Rightarrow> pubkey list \<Rightarrow> account_cache \<Rightarrow> account_cache" where
  "prefetch rpc pubkeys c = fold (\<lambda>pk c. fst (cache_get_or_fetch rpc pk c)) pubkeys c"

definition cache_len :: "account_cache \<Rightarrow> nat" where
  "cache_len c = length (cc_inner c)"

text \<open>The subscription: its filters, and the messages of the stream.\<close>

record accounts_filter =
  af_account :: "string list"
  af_owner :: "string list"

definition accounts_filters ::
  "(pubkey \<Rightarrow> string) \<Rightarrow> string list \<Rightarrow> pubkey list \<Rightarrow> (string, accounts_filter) hmap" where
  "accounts_filters to_text dex_program_ids extra_accounts =
     (let m = hm_insert ''dex_pools'' \<lparr>af_account = [], af_owner = dex_program_ids\<rparr> []
      in if extra_accounts \<noteq> []
         then hm_insert ''extras'' \<lparr>af_account = map to_text extra_accounts, af_owner = []\<rparr> m
         else m)"

record account_info =
  ai_pubkey :: bytes
  ai_lamports :: u64
  ai_data :: bytes
  ai_owner :: bytes
  ai_executable :: bool
  ai_rent_epoch :: u64

datatype stream_msg = AccountUpdate u64 "account_info option" | Ping | OtherUpdate | StreamError

definition account_of_info :: "account_info \<Rightarrow> account" where
  "account_of_info i =
     \<lparr>acc_lamports = ai_lamports i, acc_data = ai_data i,
      acc_owner = (if length (ai_owner i) = 32 then ai_owner i else replicate 32 0),
      acc_executable = ai_executable i, acc_rent_epoch = ai_rent_epoch i\<rparr>"

text \<open>The loop over messages: the cache, the number of accounts stored, the pings answered and
  whether the stream ended without an error.\<close>

fun run_stream :: "stream_msg list \<Rightarrow> account_cache \<times> u64 \<times> nat \<Rightarrow> (account_cache \<times> u64 \<times> nat) \<times> bool" where
  "run_stream [] s = (s, True)"
| "run_stream (AccountUpdate slot info # ms) (c, n, pings) =
     (let c = c\<lparr>cc_stream_slot := slot\<rparr> in
      case info of
        None \<Rightarrow> run_stream ms (c, n, pings)
      | Some i \<Rightarrow>
          if length (ai_pubkey i) \<noteq> 32 then run_stream ms (c, n, pings)
          else run_stream ms
                 (c\<lparr>cc_inner := hm_insert (ai_pubkey i) (account_of_info i) (cc_inner c)\<rparr>, n + 1, pings))"
| "run_stream (Ping # ms) (c, n, pings) = run_stream ms (c, n, pings + 1)"
| "run_stream (OtherUpdate # ms) s = run_stream ms s"
| "run_stream (StreamError # ms) s = (s, False)"

text \<open>Milliseconds slept before a reconnection, and after it.\<close>

definition initial_backoff :: nat where
  "initial_backoff = 500"

definition next_backoff :: "nat \<Rightarrow> nat" where
  "next_backoff b = min (b * 2) 10000"

subsection \<open>The blockhash cache\<close>

datatype refresh_result = Fresh bytes | RefreshFailed | RefreshPanicked

definition new_blockhash :: "bytes option \<Rightarrow> bytes" where
  "new_blockhash r = (case r of Some h \<Rightarrow> h | None \<Rightarrow> replicate 32 0)"

fun refresh_blockhash :: "refresh_result \<Rightarrow> bytes \<Rightarrow> bytes" where
  "refresh_blockhash (Fresh h) old = h"
| "refresh_blockhash RefreshFailed old = old"
| "refresh_blockhash RefreshPanicked old = old"

subsection \<open>The contract of a read-through cache\<close>

locale read_through =
  fixes look :: "'s \<Rightarrow> 'k \<Rightarrow> 'v option"
    and fetch :: "'k \<Rightarrow> 's \<Rightarrow> 's \<times> ('e, 'v) outcome"
    and remote :: "'k \<Rightarrow> ('e, 'v) outcome"
    and ok :: "'s \<Rightarrow> bool"
  assumes hit: "look s k = Some v \<Longrightarrow> fetch k s = (s, Ok v)"
    and miss: "ok s \<Longrightarrow> look s k = None \<Longrightarrow> snd (fetch k s) = remote k"
    and look_fetch: "ok s \<Longrightarrow> look (fst (fetch k s)) k' =
      (if k' = k \<and> look s k = None
       then (case remote k of Ok v \<Rightarrow> Some v | _ \<Rightarrow> None) else look s k')"
    and ok_fetch: "ok s \<Longrightarrow> ok (fst (fetch k s))"
begin

definition fetch_all :: "'k list \<Rightarrow> 's \<Rightarrow> 's" where
  "fetch_all ks s = fold (\<lambda>k s. fst (fetch k s)) ks s"

lemma ok_fetch_all: "ok s \<Longrightarrow> ok (fetch_all ks s)"
  unfolding fetch_all_def by (induction ks arbitrary: s) (simp_all add: ok_fetch)

text \<open>What a fetch returned is what it cached, and a later fetch returns it again.\<close>

lemma fetch_result:
  assumes "ok s" and "snd (fetch k s) = Ok v"
  shows "look (fst (fetch k s)) k = Some v"
proof (cases "look s k")
  case None
  with assms miss look_fetch show ?thesis by simp
next
  case (Some w)
  with hit assms(2) show ?thesis by simp
qed

lemma fetch_again:
  assumes "ok s" and "snd (fetch k s) = Ok v"
  shows "fetch k (fst (fetch k s)) = (fst (fetch k s), Ok v)"
  using fetch_result [OF assms] by (rule hit)

lemma look_fetch_all:
  "ok s \<Longrightarrow> look (fetch_all ks s) k =
     (case look s k of
        Some v \<Rightarrow> Some v
      | None \<Rightarrow> if k \<in> set ks then (case remote k of Ok v \<Rightarrow> Some v | _ \<Rightarrow> None) else None)"
proof (induction ks arbitrary: s)
  case Nil
  then show ?case by (simp add: fetch_all_def split: option.split)
next
  case (Cons k0 ks)
  have "look (fetch_all (k0 # ks) s) k = look (fetch_all ks (fst (fetch k0 s))) k"
    by (simp add: fetch_all_def)
  then show ?case
    using Cons.IH [OF ok_fetch [OF Cons.prems]] look_fetch [OF Cons.prems, of k0 k]
    by (auto split: option.splits outcome.splits)
qed

text \<open>A property of every remote answer is a property of everything cached and returned.\<close>

lemma cached_property:
  assumes "ok s" and "\<And>k v. look s k = Some v \<Longrightarrow> P k v" and "\<And>k v. remote k = Ok v \<Longrightarrow> P k v"
    and "look (fetch_all ks s) k = Some v"
  shows "P k v"
  using assms by (auto simp: look_fetch_all split: option.splits outcome.splits if_splits)

lemma returned_property:
  assumes "ok s" and "\<And>k v. look s k = Some v \<Longrightarrow> P k v" and "\<And>k v. remote k = Ok v \<Longrightarrow> P k v"
    and "snd (fetch k s) = Ok v"
  shows "P k v"
  using assms hit [of s k] miss [of s k] by (cases "look s k") auto

end

definition alt_remote :: "rpc \<Rightarrow> pubkey list \<Rightarrow> pubkey \<Rightarrow> (fetch_error, lookup_table) outcome" where
  "alt_remote rpc tips pk =
     bind_outcome (of_option (RpcFailed pk) (rpc pk)) (\<lambda>a.
     bind_outcome (deserialize_alt_addresses (acc_data a)) (\<lambda>addresses.
       Ok \<lparr>alt_key = pk, alt_addresses = filter (\<lambda>addr. addr \<notin> set tips) addresses\<rparr>))"

interpretation alts: read_through "\<lambda>c k. hm_get (ac_inner c) k" "alt_get_or_fetch rpc"
    "alt_remote rpc tips" "\<lambda>c. ac_tips c = tips" for rpc tips
  by unfold_locales
    (auto simp: alt_get_or_fetch_def alt_remote_def Let_def split: option.splits outcome.splits)

interpretation accts: read_through cache_get "cache_get_or_fetch rpc"
    "\<lambda>pk. of_option (RpcFailed pk) (rpc pk)" "\<lambda>_. True" for rpc
  by unfold_locales
    (auto simp: cache_get_or_fetch_def cache_get_def split: option.splits)

lemma prefetch_is_fetch_all: "prefetch rpc pks c = accts.fetch_all rpc pks c"
  by (simp add: prefetch_def accts.fetch_all_def)


subsection \<open>Lookup-table data\<close>

lemma length_chunks_exact: "length (chunks_exact n xs) = length xs div n"
  by (simp add: chunks_exact_def)

lemma chunks_exact_Cons:
  assumes "0 < n" and "length a = n"
  shows "chunks_exact n (a @ xs) = a # chunks_exact n xs"
proof -
  have "length (a @ xs) div n = Suc (length xs div n)" using assms by (simp add: div_add_self1)
  then show ?thesis
    using assms by (simp add: chunks_exact_def upt_conv_Cons map_Suc_upt [symmetric] del: upt_Suc)
qed

lemma chunks_exact_concat:
  "0 < n \<Longrightarrow> \<forall>a \<in> set as. length a = n \<Longrightarrow> chunks_exact n (concat as) = as"
  by (induction as) (simp_all add: chunks_exact_Cons, simp add: chunks_exact_def)

lemma chunk_lengths:
  assumes "c \<in> set (chunks_exact n xs)"
  shows "length c = n"
proof -
  obtain i where i: "i < length xs div n" "c = take n (drop (i * n) xs)"
    using assms by (auto simp: chunks_exact_def)
  have "Suc i * n \<le> length xs div n * n" using i(1) by (simp only: mult_le_mono1 Suc_leI)
  also have "\<dots> \<le> length xs" by simp
  finally show ?thesis using i(2) by simp
qed

lemma deserialize_not_Panic [simp]: "deserialize_alt_addresses d \<noteq> Panic"
  by (simp add: deserialize_alt_addresses_def Let_def)

lemma alt_remote_clean:
  assumes "alt_remote rpc tips pk = Ok alt"
  shows "alt_key alt = pk \<and> set (alt_addresses alt) \<inter> set tips = {}"
  using assms by (auto simp: alt_remote_def outcome_simps)

subsection \<open>The stream\<close>

text \<open>The accounts a list of messages stores, and its slots, up to the first error.\<close>

fun until_error :: "stream_msg list \<Rightarrow> stream_msg list" where
  "until_error [] = []"
| "until_error (StreamError # ms) = []"
| "until_error (m # ms) = m # until_error ms"

fun stored :: "stream_msg \<Rightarrow> (pubkey \<times> account) option" where
  "stored (AccountUpdate slot (Some i)) =
     (if length (ai_pubkey i) = 32 then Some (ai_pubkey i, account_of_info i) else None)"
| "stored _ = None"

fun slot_of :: "stream_msg \<Rightarrow> u64 option" where
  "slot_of (AccountUpdate slot _) = Some slot"
| "slot_of _ = None"

lemma run_stream_cache:
  "cache_get (fst (fst (run_stream ms (c, n, p)))) k =
     (case map_of (rev (List.map_filter stored (until_error ms))) k of
        Some a \<Rightarrow> Some a | None \<Rightarrow> cache_get c k)"
proof (induction ms "(c, n, p)" arbitrary: c n p rule: run_stream.induct)
  case (2 slot info ms c n p)
  then show ?case
    by (auto simp: cache_get_def map_filter_simps map_add_def Let_def split: option.splits)
qed (auto simp: map_filter_simps split: option.split)

lemma run_stream_slot:
  "cc_stream_slot (fst (fst (run_stream ms (c, n, p)))) =
     last (cc_stream_slot c # List.map_filter slot_of (until_error ms))"
proof (induction ms "(c, n, p)" arbitrary: c n p rule: run_stream.induct)
  case (2 slot info ms c n p)
  then show ?case by (auto simp: map_filter_simps Let_def split: option.splits)
qed (auto simp: map_filter_simps)

subsection \<open>Properties\<close>

text \<open>The data of a lookup table decodes exactly when it has the 56-byte header and whole
  32-byte addresses after it; encoding any list of addresses behind any header and decoding
  gives the list back, and every decoded address has 32 bytes.\<close>

theorem alt_data_roundtrip:
  assumes "length header = 56" and "\<forall>a \<in> set addresses. length a = 32"
  shows "deserialize_alt_addresses (header @ concat addresses) = Ok addresses \<and>
    (is_ok (deserialize_alt_addresses data) \<longleftrightarrow>
       56 \<le> length data \<and> (length data - 56) mod 32 = 0) \<and>
    (deserialize_alt_addresses data = Ok as \<longrightarrow> (\<forall>a \<in> set as. length a = 32))"
proof -
  have "length (concat addresses) = 32 * length addresses"
    using assms(2) by (induction addresses) simp_all
  then have "deserialize_alt_addresses (header @ concat addresses) = Ok addresses"
    using assms by (simp add: deserialize_alt_addresses_def HEADER_SIZE_def chunks_exact_concat)
  moreover have "deserialize_alt_addresses data = Ok as \<longrightarrow> (\<forall>a \<in> set as. length a = 32)"
    using chunk_lengths
    by (fastforce simp: deserialize_alt_addresses_def Let_def simp del: length_drop split: if_splits)
  moreover have "is_ok (deserialize_alt_addresses data) \<longleftrightarrow>
      56 \<le> length data \<and> (length data - 56) mod 32 = 0"
    by (simp add: deserialize_alt_addresses_def HEADER_SIZE_def Let_def not_less)
  ultimately show ?thesis by blast
qed

theorem alt_data_roundtrip_witness:
  "deserialize_alt_addresses (replicate 56 0 @ replicate 32 7) = Ok [replicate 32 7]"
  using alt_data_roundtrip [of "replicate 56 0" "[replicate 32 7]" "[]" "[]"] by simp

text \<open>C30: No lookup table that the cache hands out, after any series of fetches from the empty
  cache, contains a Jito tip account, and each is filed under the key it was asked for.\<close>

theorem alts_never_hold_tips:
  assumes "snd (alt_get_or_fetch rpc pk (alts.fetch_all rpc pks (new_alt_cache tips))) = Ok alt"
  shows "alt_key alt = pk \<and> set (alt_addresses alt) \<inter> set tips = {}"
proof (rule alts.returned_property [where rpc = rpc and tips = tips
      and s = "alts.fetch_all rpc pks (new_alt_cache tips)"])
  have new: "ac_tips (new_alt_cache tips) = tips" by (simp add: new_alt_cache_def)
  then show "ac_tips (alts.fetch_all rpc pks (new_alt_cache tips)) = tips"
    by (rule alts.ok_fetch_all)
  show "alt_key v = k \<and> set (alt_addresses v) \<inter> set tips = {}"
    if "hm_get (ac_inner (alts.fetch_all rpc pks (new_alt_cache tips))) k = Some v" for k v
    using new _ alt_remote_clean that
    by (rule alts.cached_property [where rpc = rpc]) (simp add: new_alt_cache_def)
qed (use alt_remote_clean assms in auto)

definition sample_rpc :: rpc where
  "sample_rpc pk = Some \<lparr>acc_lamports = 1, acc_data = replicate 56 0 @ replicate 32 7 @ replicate 32 8,
     acc_owner = [], acc_executable = False, acc_rent_epoch = 0\<rparr>"

theorem alts_never_hold_tips_witness:
  "\<exists>alt. snd (alt_get_or_fetch sample_rpc [1] (alts.fetch_all sample_rpc [[2]]
      (new_alt_cache [replicate 32 7]))) = Ok alt \<and>
    set (alt_addresses alt) \<inter> {replicate 32 7} = {}"
proof -
  have "\<exists>alt. snd (alt_get_or_fetch sample_rpc [1] (alts.fetch_all sample_rpc [[2]]
      (new_alt_cache [replicate 32 7]))) = Ok alt"
    by (simp add: alts.fetch_all_def alt_get_or_fetch_def new_alt_cache_def sample_rpc_def
        deserialize_alt_addresses_def HEADER_SIZE_def Let_def)
  then obtain alt where "snd (alt_get_or_fetch sample_rpc [1] (alts.fetch_all sample_rpc [[2]]
      (new_alt_cache [replicate 32 7]))) = Ok alt" ..
  from this alts_never_hold_tips [OF this] show ?thesis by auto
qed

text \<open>After a prefetch the account cache holds exactly what it held before plus, for every
  requested key it lacked, the RPC node's answer when there was one; a failed fetch does not
  disturb the others.\<close>

theorem prefetch_fills_cache:
  "cache_get (prefetch rpc pks c) pk =
     (case cache_get c pk of
        Some a \<Rightarrow> Some a
      | None \<Rightarrow> if pk \<in> set pks then rpc pk else None)"
proof -
  have "cache_get (prefetch rpc pks c) pk =
     (case cache_get c pk of
        Some v \<Rightarrow> Some v
      | None \<Rightarrow> if pk \<in> set pks
          then (case (of_option (RpcFailed pk) (rpc pk) :: (fetch_error, account) outcome) of
                  Ok v \<Rightarrow> Some v | _ \<Rightarrow> None)
          else None)"
    unfolding prefetch_is_fetch_all by (rule accts.look_fetch_all) simp
  then show ?thesis by (cases "rpc pk") (simp_all split: option.split)
qed

text \<open>Reading the update stream is last-write-wins: after any messages the cache holds, for
  every key, the last well-formed update before the first stream error, or its old entry, and
  the stream slot is that of the last account message.\<close>

theorem stream_last_write_wins:
  "cache_get (fst (fst (run_stream ms (c, n, p)))) k =
     (case map_of (rev (List.map_filter stored (until_error ms))) k of
        Some a \<Rightarrow> Some a | None \<Rightarrow> cache_get c k) \<and>
   cc_stream_slot (fst (fst (run_stream ms (c, n, p)))) =
     last (cc_stream_slot c # List.map_filter slot_of (until_error ms))"
  using run_stream_cache run_stream_slot by blast

text \<open>The reconnection delay doubles from half a second and is capped at ten seconds.\<close>

theorem backoff_closed_form: "(next_backoff ^^ n) initial_backoff = min (500 * 2 ^ n) 10000"
  by (induction n) (auto simp: next_backoff_def initial_backoff_def min_def)

text \<open>Whatever mixture of refreshes, failures and panics happened, the blockhash read is the
  one of the last successful refresh, or the initial one.\<close>

theorem blockhash_is_last_success:
  "fold refresh_blockhash rs h0 =
     last (h0 # List.map_filter (\<lambda>r. case r of Fresh h \<Rightarrow> Some h | _ \<Rightarrow> None) rs)"
proof (induction rs arbitrary: h0)
  case Nil
  then show ?case by (simp add: map_filter_simps)
next
  case (Cons r rs)
  then show ?case by (cases r) (simp_all add: map_filter_simps)
qed

end
