(* ===== verification/Transactions.thy ===== *)
theory Transactions
  imports Caches AmountPatch
begin

text \<open>
  \<open>src/src/transaction.rs\<close>: conversion of the routing engine's instructions, the
  three-instruction arbitrage transaction, and its account-lock count.  Base58 and base64
  parsing, message compilation, signing and the system program's transfer instruction come
  from the Solana SDK and are arguments; so is the index drawn for the tip account.
\<close>

subsection \<open>Messages\<close>

record sdk_account_meta =
  sm_pubkey :: pubkey
  sm_is_signer :: bool
  sm_is_writable :: bool

record instruction =
  in_program_id :: pubkey
  in_accounts :: "sdk_account_meta list"
  in_data :: bytes

record table_lookup =
  tl_account_key :: pubkey
  tl_writable_indexes :: "u8 list"
  tl_readonly_indexes :: "u8 list"

record v0_message =
  vm_account_keys :: "pubkey list"
  vm_address_table_lookups :: "table_lookup list"

datatype versioned_message = V0 v0_message | Legacy "pubkey list"

record versioned_transaction =
  vt_message :: versioned_message
  vt_signatures :: "bytes list"

record sdk =
  sdk_parse :: parser
  sdk_decode :: decoder
  sdk_compile :: "pubkey \<Rightarrow> instruction list \<Rightarrow> lookup_table list \<Rightarrow> bytes \<Rightarrow> v0_message option"
  sdk_sign :: "versioned_message \<Rightarrow> versioned_transaction option"
  sdk_transfer :: "pubkey \<Rightarrow> pubkey \<Rightarrow> u64 \<Rightarrow> instruction"

subsection \<open>Building\<close>

datatype tx_error = BadPubkey string | BadData | AltFetch fetch_error | CompileFailed | SignFailed

definition to_sdk_meta :: "parser \<Rightarrow> account_meta \<Rightarrow> (tx_error, sdk_account_meta) outcome" where
  "to_sdk_meta parse a =
     (case parse (am_pubkey a) of
        None \<Rightarrow> Panic
      | Some pk \<Rightarrow> Ok \<lparr>sm_pubkey = pk, sm_is_signer = am_is_signer a,
                        sm_is_writable = am_is_writable a\<rparr>)"

definition to_sdk_instruction ::
  "parser \<Rightarrow> decoder \<Rightarrow> instruction_data \<Rightarrow> (tx_error, instruction) outcome" where
  "to_sdk_instruction parse dec ix =
     bind_outcome (of_option (BadPubkey (ix_program_id ix)) (parse (ix_program_id ix))) (\<lambda>program_id.
     bind_outcome (traverse (to_sdk_meta parse) (ix_accounts ix)) (\<lambda>accounts.
     bind_outcome (of_option BadData (dec (ix_data ix))) (\<lambda>d.
       Ok \<lparr>in_program_id = program_id, in_accounts = accounts, in_data = d\<rparr>)))"

definition COMPUTE_BUDGET :: string where
  "COMPUTE_BUDGET = ''ComputeBudget111111111111111111111111111111''"

definition cu_limit_instruction :: "pubkey \<Rightarrow> u32 \<Rightarrow> instruction" where
  "cu_limit_instruction program cu_limit =
     \<lparr>in_program_id = program, in_accounts = [], in_data = 2 # le_bytes 4 cu_limit\<rparr>"

text \<open>\<open>if !alt_addresses.contains(&pubkey) { alt_addresses.push(pubkey) }\<close>.\<close>

definition push_new :: "pubkey \<Rightarrow> pubkey list \<Rightarrow> pubkey list" where
  "push_new pk acc = (if pk \<in> set acc then acc else acc @ [pk])"

text \<open>The loop over the table addresses: the first failing fetch stops it, with the cache as the
  earlier fetches left it.\<close>

fun fetch_tables ::
  "rpc \<Rightarrow> pubkey list \<Rightarrow> alt_cache \<Rightarrow> alt_cache \<times> (tx_error, lookup_table list) outcome" where
  "fetch_tables rpc [] c = (c, Ok [])"
| "fetch_tables rpc (pk # pks) c =
     (case alt_get_or_fetch rpc pk c of
        (c, Ok alt) \<Rightarrow>
          (case fetch_tables rpc pks c of (c, r) \<Rightarrow> (c, bind_outcome r (\<lambda>alts. Ok (alt # alts))))
      | (c, Err e) \<Rightarrow> (c, Err (AltFetch e))
      | (c, Panic) \<Rightarrow> (c, Panic))"

text \<open>What is known before the tables are fetched.\<close>

definition arb_instructions ::
  "sdk \<Rightarrow> nat \<Rightarrow> swap_instructions_response \<Rightarrow> pubkey \<Rightarrow> u64 \<Rightarrow> u32 \<Rightarrow>
   (tx_error, instruction list \<times> pubkey list) outcome" where
  "arb_instructions sdk tip_choice swap_ixs payer tip_lamports cu_limit =
     bind_outcome (of_option (BadPubkey COMPUTE_BUDGET) (sdk_parse sdk COMPUTE_BUDGET)) (\<lambda>budget.
     bind_outcome (to_sdk_instruction (sdk_parse sdk) (sdk_decode sdk) (swap_instruction swap_ixs)) (\<lambda>swap.
     let addr = JITO_TIP_ACCOUNTS ! (tip_choice mod length JITO_TIP_ACCOUNTS) in
     bind_outcome (of_option (BadPubkey addr) (sdk_parse sdk addr)) (\<lambda>tip_account.
     bind_outcome (traverse (\<lambda>a. of_option (BadPubkey a) (sdk_parse sdk a))
                     (address_lookup_table_addresses swap_ixs)) (\<lambda>pks.
       Ok ([cu_limit_instruction budget cu_limit, swap,
            sdk_transfer sdk payer tip_account tip_lamports],
           fold push_new pks [])))))"

definition build_arb_transaction ::
  "sdk \<Rightarrow> rpc \<Rightarrow> nat \<Rightarrow> swap_instructions_response \<Rightarrow> pubkey \<Rightarrow> u64 \<Rightarrow> u32 \<Rightarrow> bytes \<Rightarrow> alt_cache \<Rightarrow>
   alt_cache \<times> (tx_error, versioned_transaction) outcome" where
  "build_arb_transaction sdk rpc tip_choice swap_ixs payer tip_lamports cu_limit blockhash c =
     (case arb_instructions sdk tip_choice swap_ixs payer tip_lamports cu_limit of
        Ok (instructions, alt_keys) \<Rightarrow>
          (case fetch_tables rpc alt_keys c of
             (c, r) \<Rightarrow> (c, bind_outcome r (\<lambda>tables.
                bind_outcome (of_option CompileFailed (sdk_compile sdk payer instructions tables blockhash)) (\<lambda>msg.
                of_option SignFailed (sdk_sign sdk (V0 msg))))))
      | Err e \<Rightarrow> (c, Err e)
      | Panic \<Rightarrow> (c, Panic))"

definition account_lock_count :: "versioned_transaction \<Rightarrow> nat" where
  "account_lock_count tx =
     (case vt_message tx of
        V0 msg \<Rightarrow>
          length (vm_account_keys msg) +
          sum_list (map (\<lambda>l. length (tl_writable_indexes l) + length (tl_readonly_indexes l))
                        (vm_address_table_lookups msg))
      | Legacy keys \<Rightarrow> length keys)"

subsection \<open>Conversion\<close>

lemma traverse_Panic:
  assumes "\<And>x e. x \<in> set xs \<Longrightarrow> f x \<noteq> Err e"
  shows "traverse f xs = Panic \<longleftrightarrow> (\<exists>x \<in> set xs. f x = Panic)"
  using assms by (induction xs) (auto simp: outcome_simps; metis outcome.exhaust)+

lemma to_sdk_meta_cases [simp]:
  "to_sdk_meta parse a \<noteq> Err e"
  "to_sdk_meta parse a = Panic \<longleftrightarrow> parse (am_pubkey a) = None"
  by (simp_all add: to_sdk_meta_def split: option.split)

lemma to_sdk_instruction_Panic:
  "to_sdk_instruction parse dec ix = Panic \<longleftrightarrow>
     parse (ix_program_id ix) \<noteq> None \<and> (\<exists>a \<in> set (ix_accounts ix). parse (am_pubkey a) = None)"
  by (auto simp: to_sdk_instruction_def outcome_simps traverse_Panic)

lemma to_sdk_instruction_Ok:
  "to_sdk_instruction parse dec ix = Ok i \<longleftrightarrow>
     parse (ix_program_id ix) = Some (in_program_id i) \<and>
     list_all2 (\<lambda>a m. parse (am_pubkey a) = Some (sm_pubkey m) \<and>
         sm_is_signer m = am_is_signer a \<and> sm_is_writable m = am_is_writable a)
       (ix_accounts ix) (in_accounts i) \<and>
     dec (ix_data ix) = Some (in_data i)"
proof -
  have meta: "to_sdk_meta parse a = Ok m \<longleftrightarrow> parse (am_pubkey a) = Some (sm_pubkey m) \<and>
      sm_is_signer m = am_is_signer a \<and> sm_is_writable m = am_is_writable a" for a m
    by (cases m) (auto simp: to_sdk_meta_def split: option.split)
  show ?thesis
    by (cases i) (auto simp: to_sdk_instruction_def outcome_simps traverse_eq_Ok meta)
qed

subsection \<open>Tables\<close>

lemma fold_push_new: "distinct acc \<Longrightarrow> distinct (fold push_new pks acc) \<and>
    set (fold push_new pks acc) = set acc \<union> set pks"
  by (induction pks arbitrary: acc) (auto simp: push_new_def)

lemma fetch_tables_alts:
  "fst (fetch_tables rpc pks c) = c' \<Longrightarrow> \<exists>pks'. c' = alts.fetch_all rpc pks' c"
proof (induction rpc pks c arbitrary: c' rule: fetch_tables.induct)
  case (1 rpc c)
  then show ?case by (auto intro: exI [of _ "[]"] simp: alts.fetch_all_def)
next
  case (2 rpc pk pks c)
  obtain c1 r where step: "alt_get_or_fetch rpc pk c = (c1, r)" by fastforce
  have one: "c1 = alts.fetch_all rpc [pk] c" using step by (simp add: alts.fetch_all_def)
  show ?case
  proof (cases r)
    case (Ok alt)
    with 2 step obtain pks' where "c' = alts.fetch_all rpc pks' c1"
      by (fastforce simp: case_prod_unfold)
    with one have "c' = alts.fetch_all rpc (pk # pks') c" by (simp add: alts.fetch_all_def)
    then show ?thesis ..
  next
    case (Err e)
    with 2(2) step have "c' = c1" by simp
    with one show ?thesis by blast
  next
    case Panic
    with 2(2) step have "c' = c1" by simp
    with one show ?thesis by blast
  qed
qed

text \<open>A cache whose tables are free of tip accounts stays so.\<close>

definition tip_free :: "pubkey list \<Rightarrow> pubkey \<Rightarrow> lookup_table \<Rightarrow> bool" where
  "tip_free tips pk alt \<longleftrightarrow> alt_key alt = pk \<and> set (alt_addresses alt) \<inter> set tips = {}"

definition cache_clean :: "pubkey list \<Rightarrow> alt_cache \<Rightarrow> bool" where
  "cache_clean tips c \<longleftrightarrow> ac_tips c = tips \<and>
     (\<forall>k v. hm_get (ac_inner c) k = Some v \<longrightarrow> tip_free tips k v)"

lemma remote_tip_free: "alt_remote rpc tips pk = Ok alt \<Longrightarrow> tip_free tips pk alt"
  using alt_remote_clean by (auto simp: tip_free_def)

lemma cache_clean_fetch:
  assumes "cache_clean tips c" and "alt_get_or_fetch rpc pk c = (c', r)"
  shows "cache_clean tips c'" and "r = Ok alt \<Longrightarrow> tip_free tips pk alt"
proof -
  have c: "ac_tips c = tips" and P: "\<And>k v. hm_get (ac_inner c) k = Some v \<Longrightarrow> tip_free tips k v"
    using assms(1) by (auto simp: cache_clean_def)
  have c': "c' = alts.fetch_all rpc [pk] c" using assms(2) by (simp add: alts.fetch_all_def)
  have "tip_free tips k v" if "hm_get (ac_inner c') k = Some v" for k v
    using c P remote_tip_free that unfolding c' by (rule alts.cached_property)
  moreover have "ac_tips c' = tips" unfolding c' using c by (rule alts.ok_fetch_all)
  ultimately show "cache_clean tips c'" by (simp add: cache_clean_def)
  show "tip_free tips pk alt" if "r = Ok alt"
  proof -
    have "snd (alt_get_or_fetch rpc pk c) = Ok alt" using that assms(2) by simp
    with c P remote_tip_free show ?thesis by (rule alts.returned_property)
  qed
qed

lemma cache_clean_new: "cache_clean tips (new_alt_cache tips)"
  by (simp add: cache_clean_def new_alt_cache_def)

lemma fetch_tables_Ok:
  assumes "cache_clean tips c" and "snd (fetch_tables rpc pks c) = Ok tables"
  shows "list_all2 (tip_free tips) pks tables"
  using assms
proof (induction rpc pks c arbitrary: tables rule: fetch_tables.induct)
  case (1 rpc c)
  then show ?case by simp
next
  case (2 rpc pk pks c)
  obtain c1 r where step: "alt_get_or_fetch rpc pk c = (c1, r)" by fastforce
  with 2(3) obtain alt rest where alt: "r = Ok alt" and rest: "snd (fetch_tables rpc pks c1) = Ok rest"
    and tables: "tables = alt # rest"
    by (auto simp: outcome_simps case_prod_unfold split: outcome.splits)
  note clean = cache_clean_fetch [OF 2(2) step]
  have "list_all2 (tip_free tips) pks rest"
    using 2(1) [OF step [symmetric] alt clean(1) rest] .
  with clean(2) [OF alt] tables show ?case by simp
qed

lemma fetch_tables_clean: "cache_clean tips c \<Longrightarrow> cache_clean tips (fst (fetch_tables rpc pks c))"
proof (induction rpc pks c rule: fetch_tables.induct)
  case (1 rpc c)
  then show ?case by simp
next
  case (2 rpc pk pks c)
  obtain c1 r where step: "alt_get_or_fetch rpc pk c = (c1, r)" by fastforce
  note clean = cache_clean_fetch(1) [OF 2(2) step]
  with step 2(1) [OF step [symmetric]] show ?case
    by (cases r) (simp_all add: case_prod_unfold)
qed

lemma build_clean:
  "cache_clean tips c \<Longrightarrow>
   cache_clean tips (fst (build_arb_transaction sdk rpc tip ixs payer lamports cu h c))"
  using fetch_tables_clean
  by (simp add: build_arb_transaction_def case_prod_unfold split: outcome.split)

subsection \<open>Properties\<close>

text \<open>Converting an instruction panics exactly when its program id parses and one of its
  account keys does not; it succeeds exactly when everything parses, and then has the same
  program, accounts (with their signer and writable flags, in order) and data.\<close>

theorem to_sdk_instruction_faithful:
  "(to_sdk_instruction parse dec ix = Panic \<longleftrightarrow>
      parse (ix_program_id ix) \<noteq> None \<and> (\<exists>a \<in> set (ix_accounts ix). parse (am_pubkey a) = None)) \<and>
   (to_sdk_instruction parse dec ix = Ok i \<longleftrightarrow>
      parse (ix_program_id ix) = Some (in_program_id i) \<and>
      list_all2 (\<lambda>a m. parse (am_pubkey a) = Some (sm_pubkey m) \<and>
          sm_is_signer m = am_is_signer a \<and> sm_is_writable m = am_is_writable a)
        (ix_accounts ix) (in_accounts i) \<and>
      dec (ix_data ix) = Some (in_data i))"
  by (rule conjI [OF to_sdk_instruction_Panic to_sdk_instruction_Ok])


definition sample_sdk :: sdk where
  "sample_sdk = \<lparr>sdk_parse = (\<lambda>s. Some (map (\<lambda>c. of_nat (of_char c :: nat)) s)),
     sdk_decode = (\<lambda>_. Some [1]),
     sdk_compile = (\<lambda>payer ins alts h. Some \<lparr>vm_account_keys = [payer], vm_address_table_lookups = []\<rparr>),
     sdk_sign = (\<lambda>m. Some \<lparr>vt_message = m, vt_signatures = []\<rparr>),
     sdk_transfer = (\<lambda>a b n. \<lparr>in_program_id = [], in_accounts = [], in_data = le_bytes 8 n\<rparr>)\<rparr>"


end
