(* ===== verification/JitoSenders.thy ===== *)
theory JitoSenders
  imports Transactions "HOL-Library.Multiset"
begin

text \<open>
  Submission of bundles: the REST client (\<open>src/src/jito.rs\<close>) and the gRPC client
  (\<open>src/src/jito_grpc.rs\<close>) with its per-region authentication and token refresh.  Both
  clients race one request per region; the locale \<open>bundle_sender\<close> is what the workers rely
  on, and both clients are interpretations of it.  The network's answers, the order in which
  they arrive, signatures and codecs are arguments.
\<close>

subsection \<open>The race\<close>

text \<open>The loop over finished requests: the first success wins, otherwise the last error.\<close>

fun race :: "'e \<Rightarrow> ('e, 'a) outcome list \<Rightarrow> 'e option \<Rightarrow> ('e, 'a) outcome" where
  "race none_err [] last_err = Err (case last_err of None \<Rightarrow> none_err | Some e \<Rightarrow> e)"
| "race none_err (Ok x # rs) last_err = Ok x"
| "race none_err (Err e # rs) last_err = race none_err rs (Some e)"
| "race none_err (Panic # rs) last_err = Panic"

type_synonym tx_bytes_fn = "versioned_transaction \<Rightarrow> bytes option"

subsection \<open>The REST client\<close>

record send_bundle_request =
  sb_jsonrpc :: string
  sb_id :: u64
  sb_method :: string
  sb_txs :: "string list"
  sb_encoding :: string

record rpc_response =
  rs_result :: "string option"
  rs_error :: "(int \<times> string) option"

datatype rest_reply = RestUnsent | RestReply nat string

datatype send_error =
    SerializeFailed | NoEndpoints | Unsent string | HttpError string nat string
  | BadResponse | RpcError string int string | NoResult
  | BadToken | TimedOut string | Rejected string

definition bundle_url :: "string \<Rightarrow> string \<Rightarrow> string" where
  "bundle_url uuid url = trim_end_matches (CHR ''/'') url @ ''/api/v1/bundles?uuid='' @ uuid"

definition jito_client_urls :: "string list \<Rightarrow> string \<Rightarrow> string list" where
  "jito_client_urls base_urls uuid = map (bundle_url uuid) base_urls"

definition send_to_endpoint ::
  "(string \<Rightarrow> send_bundle_request \<Rightarrow> rest_reply) \<Rightarrow> (string \<Rightarrow> rpc_response option) \<Rightarrow>
   string \<Rightarrow> string \<Rightarrow> (send_error, string) outcome" where
  "send_to_endpoint post parse_rpc tx_base64 url =
     (let request = \<lparr>sb_jsonrpc = ''2.0'', sb_id = 1, sb_method = ''sendBundle'',
                     sb_txs = [tx_base64], sb_encoding = ''base64''\<rparr>
      in case post url request of
           RestUnsent \<Rightarrow> Err (Unsent url)
         | RestReply status body \<Rightarrow>
             if \<not> is_success status then Err (HttpError url status body)
             else bind_outcome (of_option BadResponse (parse_rpc body)) (\<lambda>resp.
               case rs_error resp of
                 Some (code, message) \<Rightarrow> Err (RpcError url code message)
               | None \<Rightarrow> of_option NoResult (rs_result resp)))"

record rest_client =
  rest_urls :: "string list"
  rest_post :: "string \<Rightarrow> send_bundle_request \<Rightarrow> rest_reply"
  rest_parse :: "string \<Rightarrow> rpc_response option"
  rest_encode :: encoder
  rest_bytes :: tx_bytes_fn
  rest_order :: "(send_error, string) outcome list \<Rightarrow> (send_error, string) outcome list"

definition rest_attempts :: "rest_client \<Rightarrow> bytes \<Rightarrow> (send_error, string) outcome list" where
  "rest_attempts c tx_bytes =
     map (send_to_endpoint (rest_post c) (rest_parse c) (rest_encode c tx_bytes)) (rest_urls c)"

definition rest_send_bundle :: "rest_client \<Rightarrow> versioned_transaction \<Rightarrow> (send_error, string) outcome" where
  "rest_send_bundle c tx =
     bind_outcome (of_option SerializeFailed (rest_bytes c tx)) (\<lambda>tx_bytes.
       race NoEndpoints (rest_order c (rest_attempts c tx_bytes)) None)"

subsection \<open>The gRPC client\<close>

record tokens =
  tk_access :: string
  tk_access_expires_at :: u64
  tk_refresh :: string
  tk_refresh_expires_at :: u64

record region =
  rg_endpoint :: string
  rg_tokens :: "tokens option"

record grpc_request =
  gr_packets :: "bytes list"
  gr_authorization :: "string option"

datatype grpc_reply = GrpcTimeout | GrpcStatus | GrpcAccepted string

definition send_to_region ::
  "(string \<Rightarrow> bool) \<Rightarrow> (string \<Rightarrow> grpc_request \<Rightarrow> grpc_reply) \<Rightarrow> bytes \<Rightarrow> region \<Rightarrow>
   (send_error, string) outcome" where
  "send_to_region valid_header call tx_bytes region =
     bind_outcome
       (case rg_tokens region of
          None \<Rightarrow> Ok None
        | Some t \<Rightarrow>
            (let auth_value = ''Bearer '' @ tk_access t
             in if valid_header auth_value then Ok (Some auth_value) else Err BadToken))
       (\<lambda>auth.
         case call (rg_endpoint region) \<lparr>gr_packets = [tx_bytes], gr_authorization = auth\<rparr> of
           GrpcTimeout \<Rightarrow> Err (TimedOut (rg_endpoint region))
         | GrpcStatus \<Rightarrow> Err (Rejected (rg_endpoint region))
         | GrpcAccepted uuid \<Rightarrow> Ok uuid)"

record grpc_client =
  grpc_regions :: "region list"
  grpc_valid_header :: "string \<Rightarrow> bool"
  grpc_call :: "string \<Rightarrow> grpc_request \<Rightarrow> grpc_reply"
  grpc_bytes :: tx_bytes_fn
  grpc_order :: "(send_error, string) outcome list \<Rightarrow> (send_error, string) outcome list"

definition grpc_attempts :: "grpc_client \<Rightarrow> bytes \<Rightarrow> (send_error, string) outcome list" where
  "grpc_attempts c tx_bytes =
     map (send_to_region (grpc_valid_header c) (grpc_call c) tx_bytes) (grpc_regions c)"

definition grpc_send_bundle :: "grpc_client \<Rightarrow> versioned_transaction \<Rightarrow> (send_error, string) outcome" where
  "grpc_send_bundle c tx =
     bind_outcome (of_option SerializeFailed (grpc_bytes c tx)) (\<lambda>tx_bytes.
       race NoEndpoints (grpc_order c (grpc_attempts c tx_bytes)) None)"

subsection \<open>Authentication\<close>

text \<open>A token of the service: its value and its expiry in signed seconds.\<close>

type_synonym token_msg = "string \<times> int option"

datatype auth_error = ChallengeFailed | TokensFailed | NoAccessToken | NoRefreshToken

record auth_service =
  as_challenge :: "bytes \<Rightarrow> string option"
  as_sign :: "string \<Rightarrow> bytes"
  as_tokens :: "string \<Rightarrow> bytes \<Rightarrow> bytes \<Rightarrow> (token_msg option \<times> token_msg option) option"

definition timestamp_secs :: "int option \<Rightarrow> u64" where
  "timestamp_secs ts = (case ts of Some s \<Rightarrow> of_int (max s 0) | None \<Rightarrow> 0)"

definition authenticate ::
  "auth_service \<Rightarrow> (bytes \<Rightarrow> string) \<Rightarrow> bytes \<Rightarrow> (auth_error, tokens) outcome" where
  "authenticate svc to_text pubkey =
     bind_outcome (of_option ChallengeFailed (as_challenge svc pubkey)) (\<lambda>nonce.
     let challenge = to_text pubkey @ ''-'' @ nonce;
         signed = as_sign svc challenge
     in bind_outcome (of_option TokensFailed (as_tokens svc challenge pubkey signed)) (\<lambda>(acc, ref).
        bind_outcome (of_option NoAccessToken acc) (\<lambda>acc.
        bind_outcome (of_option NoRefreshToken ref) (\<lambda>ref.
          Ok \<lparr>tk_access = fst acc, tk_access_expires_at = timestamp_secs (snd acc),
              tk_refresh = fst ref, tk_refresh_expires_at = timestamp_secs (snd ref)\<rparr>))))"

text \<open>Connecting: \<open>None\<close> when the channel cannot be opened, otherwise the region, with tokens when
  authentication succeeded.\<close>

definition connect_region ::
  "(string \<Rightarrow> bool) \<Rightarrow> (string \<Rightarrow> (auth_error, tokens) outcome) \<Rightarrow> string \<Rightarrow> (region \<times> bool) option" where
  "connect_region reachable auth endpoint =
     (if \<not> reachable endpoint then None
      else case auth endpoint of
             Ok t \<Rightarrow> Some (\<lparr>rg_endpoint = endpoint, rg_tokens = Some t\<rparr>, True)
           | _ \<Rightarrow> Some (\<lparr>rg_endpoint = endpoint, rg_tokens = None\<rparr>, False))"

text \<open>\<open>JitoGrpcClient::new\<close>: the regions, and how many of them authenticated.\<close>

definition connect_all ::
  "(string \<Rightarrow> bool) \<Rightarrow> (string \<Rightarrow> (auth_error, tokens) outcome) \<Rightarrow> string list \<Rightarrow>
   (unit, region list \<times> nat \<times> nat) outcome" where
  "connect_all reachable auth endpoints =
     (let (regions, authed, no_auth) =
        fold (\<lambda>endpoint (regions, authed, no_auth).
            (case connect_region reachable auth endpoint of
               Some (region, was_authed) \<Rightarrow>
                 (regions @ [region], if was_authed then authed + 1 else authed,
                  if was_authed then no_auth else no_auth + 1)
             | None \<Rightarrow> (regions, authed, no_auth)))
          endpoints ([], 0, 0)
      in if regions = [] then Err () else Ok (regions, authed, no_auth))"

subsection \<open>Token refresh\<close>

definition refresh_sleep :: "u64 \<Rightarrow> tokens option \<Rightarrow> u64" where
  "refresh_sleep now toks =
     (case toks of
        Some t \<Rightarrow> min (max (saturating_sub (saturating_sub (tk_access_expires_at t) now) 60) 10) 300
      | None \<Rightarrow> 300)"

definition needs_full_reauth :: "u64 \<Rightarrow> tokens option \<Rightarrow> bool" where
  "needs_full_reauth now toks =
     (case toks of
        Some t \<Rightarrow> saturating_sub (tk_refresh_expires_at t) now < 120
      | None \<Rightarrow> True)"

text \<open>The rest of one iteration, after the sleep: the tokens, and the extra seconds slept.  The
  answer of \<open>RefreshAccessToken\<close> is an error, or an access token that may be missing.\<close>

definition refresh_iteration ::
  "u64 \<Rightarrow> (auth_error, tokens) outcome \<Rightarrow> (string \<Rightarrow> token_msg option option) \<Rightarrow> tokens option \<Rightarrow>
   tokens option \<times> nat" where
  "refresh_iteration now auth refresh_rpc toks =
     (if needs_full_reauth now toks
      then (case auth of Ok new \<Rightarrow> (Some new, 0) | _ \<Rightarrow> (toks, 30))
      else case toks of
             None \<Rightarrow> (toks, 0)
           | Some t \<Rightarrow>
               (case refresh_rpc (tk_refresh t) of
                  Some (Some new_access) \<Rightarrow>
                    (Some (t\<lparr>tk_access_expires_at := timestamp_secs (snd new_access),
                             tk_access := fst new_access\<rparr>), 0)
                | Some None \<Rightarrow> (toks, 0)
                | None \<Rightarrow> (case auth of Ok new \<Rightarrow> (Some new, 0) | _ \<Rightarrow> (toks, 30))))"

text \<open>\<open>token_refresh_loop\<close>: the clock before and after the sleep and the service's answers, for each
  round; the tokens and the seconds slept.\<close>

definition now_secs :: "nat option \<Rightarrow> u64" where
  "now_secs since_epoch = (case since_epoch of Some secs \<Rightarrow> of_nat secs | None \<Rightarrow> 0)"

record refresh_round =
  rd_before :: "nat option"
  rd_after :: "nat option"
  rd_auth :: "(auth_error, tokens) outcome"
  rd_rpc :: "string \<Rightarrow> token_msg option option"

definition run_round :: "refresh_round \<Rightarrow> tokens option \<times> nat \<Rightarrow> tokens option \<times> nat" where
  "run_round r = (\<lambda>(toks, slept).
     (let sleep_secs = refresh_sleep (now_secs (rd_before r)) toks;
          (toks, extra) = refresh_iteration (now_secs (rd_after r)) (rd_auth r) (rd_rpc r) toks
      in (toks, slept + unat sleep_secs + extra)))"

definition token_refresh_loop :: "refresh_round list \<Rightarrow> tokens option \<times> nat \<Rightarrow> tokens option \<times> nat" where
  "token_refresh_loop rounds = fold run_round rounds"

text \<open>The message of a failed call, given the texts of the status.\<close>

record grpc_status =
  st_code :: string
  st_message :: string
  st_metadata :: string

definition status_to_anyhow :: "string \<Rightarrow> grpc_status \<Rightarrow> string" where
  "status_to_anyhow rpc status =
     rpc @ '' failed: code='' @ st_code status @ '' message='' @ st_message status @
     '' metadata='' @ st_metadata status"

subsection \<open>What the workers rely on\<close>

locale bundle_sender =
  fixes send :: "'c \<Rightarrow> versioned_transaction \<Rightarrow> ('e, string) outcome"
    and encoded :: "'c \<Rightarrow> versioned_transaction \<Rightarrow> bytes option"
    and attempts :: "'c \<Rightarrow> bytes \<Rightarrow> ('e, string) outcome list"
    and fair :: "'c \<Rightarrow> bool"
  assumes send_Ok: "fair c \<Longrightarrow> send c tx = Ok u \<Longrightarrow>
      \<exists>b. encoded c tx = Some b \<and> Ok u \<in> set (attempts c b)"
    and send_if_accepted: "fair c \<Longrightarrow> encoded c tx = Some b \<Longrightarrow> Ok v \<in> set (attempts c b) \<Longrightarrow>
      Panic \<notin> set (attempts c b) \<Longrightarrow> is_ok (send c tx)"
    and send_Err: "fair c \<Longrightarrow> encoded c tx = Some b \<Longrightarrow> send c tx = Err e \<Longrightarrow> attempts c b \<noteq> [] \<Longrightarrow>
      Err e \<in> set (attempts c b)"
begin

lemma send_iff_accepted:
  assumes "fair c" and "encoded c tx = Some b" and "Panic \<notin> set (attempts c b)"
  shows "is_ok (send c tx) \<longleftrightarrow> (\<exists>u. Ok u \<in> set (attempts c b))"
  using assms send_Ok send_if_accepted by (metis is_ok_iff option.inject)

end

lemma race_Ok: "race n rs l = Ok u \<Longrightarrow> Ok u \<in> set rs"
  by (induction n rs l rule: race.induct) auto

lemma race_is_ok: "Ok u \<in> set rs \<Longrightarrow> Panic \<notin> set rs \<Longrightarrow> is_ok (race n rs l)"
  by (induction n rs l rule: race.induct) auto

lemma race_Err: "race n rs l = Err e \<Longrightarrow> Err e \<in> set rs \<or> (rs = [] \<or> l \<noteq> None) \<and> (\<forall>x \<in> set rs. \<not> is_ok x)
    \<and> (case l of None \<Rightarrow> e = n | Some e' \<Rightarrow> e = e' \<or> Err e \<in> set rs)"
  by (induction n rs l rule: race.induct) (auto split: option.splits)

lemma race_Err_None: "race n rs None = Err e \<Longrightarrow> rs \<noteq> [] \<Longrightarrow> Err e \<in> set rs"
  using race_Err [of n rs None e] by auto

text \<open>An order of completion only reorders.\<close>

definition fair_order :: "('r list \<Rightarrow> 'r list) \<Rightarrow> bool" where
  "fair_order order \<longleftrightarrow> (\<forall>rs. mset (order rs) = mset rs)"

lemma fair_set: "fair_order order \<Longrightarrow> set (order rs) = set rs"
  unfolding fair_order_def by (metis set_mset_mset)

lemma fair_empty: "fair_order order \<Longrightarrow> order rs = [] \<longleftrightarrow> rs = []"
  by (metis fair_set set_empty)

interpretation rest: bundle_sender rest_send_bundle rest_bytes rest_attempts "\<lambda>c. fair_order (rest_order c)"
proof
  fix c :: rest_client and tx u v b e
  assume fair: "fair_order (rest_order c)"
  show "\<exists>b. rest_bytes c tx = Some b \<and> Ok u \<in> set (rest_attempts c b)"
    if "rest_send_bundle c tx = Ok u"
    using that race_Ok by (fastforce simp: rest_send_bundle_def outcome_simps fair_set [OF fair])
  assume b: "rest_bytes c tx = Some b"
  show "is_ok (rest_send_bundle c tx)"
    if "Ok v \<in> set (rest_attempts c b)" "Panic \<notin> set (rest_attempts c b)"
  proof -
    have "is_ok (race NoEndpoints (rest_order c (rest_attempts c b)) None)"
      using that by (intro race_is_ok) (simp_all add: fair_set [OF fair])
    with b show ?thesis by (simp add: rest_send_bundle_def)
  qed
  show "Err e \<in> set (rest_attempts c b)" if "rest_send_bundle c tx = Err e" "rest_attempts c b \<noteq> []"
    using that b race_Err_None by (fastforce simp: rest_send_bundle_def fair_set [OF fair] fair_empty [OF fair])
qed

interpretation grpc: bundle_sender grpc_send_bundle grpc_bytes grpc_attempts "\<lambda>c. fair_order (grpc_order c)"
proof
  fix c :: grpc_client and tx u v b e
  assume fair: "fair_order (grpc_order c)"
  show "\<exists>b. grpc_bytes c tx = Some b \<and> Ok u \<in> set (grpc_attempts c b)"
    if "grpc_send_bundle c tx = Ok u"
    using that race_Ok by (fastforce simp: grpc_send_bundle_def outcome_simps fair_set [OF fair])
  assume b: "grpc_bytes c tx = Some b"
  show "is_ok (grpc_send_bundle c tx)"
    if "Ok v \<in> set (grpc_attempts c b)" "Panic \<notin> set (grpc_attempts c b)"
  proof -
    have "is_ok (race NoEndpoints (grpc_order c (grpc_attempts c b)) None)"
      using that by (intro race_is_ok) (simp_all add: fair_set [OF fair])
    with b show ?thesis by (simp add: grpc_send_bundle_def)
  qed
  show "Err e \<in> set (grpc_attempts c b)" if "grpc_send_bundle c tx = Err e" "grpc_attempts c b \<noteq> []"
    using that b race_Err_None by (fastforce simp: grpc_send_bundle_def fair_set [OF fair] fair_empty [OF fair])
qed


lemma send_to_endpoint_not_Panic [simp]: "send_to_endpoint post parse b64 url \<noteq> Panic"
  by (auto simp: send_to_endpoint_def Let_def outcome_simps split: rest_reply.split option.splits)

lemma send_to_region_not_Panic [simp]: "send_to_region valid call b r \<noteq> Panic"
  by (auto simp: send_to_region_def Let_def outcome_simps split: grpc_reply.split option.splits)

lemma attempts_not_Panic [simp]:
  "Panic \<notin> set (rest_attempts c b)" "Panic \<notin> set (grpc_attempts c' b)"
  unfolding rest_attempts_def grpc_attempts_def set_map image_iff
  using send_to_endpoint_not_Panic send_to_region_not_Panic by metis+

subsection \<open>Connecting\<close>

lemma connect_all_fold:
  "fold (\<lambda>endpoint (regions, authed, no_auth).
      (case connect_region reachable auth endpoint of
         Some (region, was_authed) \<Rightarrow>
           (regions @ [region], if was_authed then authed + 1 else authed,
            if was_authed then no_auth else no_auth + 1)
       | None \<Rightarrow> (regions, authed, no_auth))) endpoints (rs, a, n) =
   (let new = map (\<lambda>e. \<lparr>rg_endpoint = e, rg_tokens = (case auth e of Ok t \<Rightarrow> Some t | _ \<Rightarrow> None)\<rparr>)
         (filter reachable endpoints)
    in (rs @ new, a + length (filter (\<lambda>r. rg_tokens r \<noteq> None) new),
        n + length (filter (\<lambda>r. rg_tokens r = None) new)))"
  by (induction endpoints arbitrary: rs a n)
    (simp_all add: connect_region_def Let_def split: outcome.split)

subsection \<open>Refresh\<close>

lemma refresh_iteration_cases:
  "refresh_iteration now auth rpc toks \<in>
     {(toks, 0), (toks, 30)} \<union> {(Some new, 0) | new. auth = Ok new} \<union>
     {(Some (t\<lparr>tk_access_expires_at := timestamp_secs (snd a), tk_access := fst a\<rparr>), 0) | t a.
        toks = Some t \<and> rpc (tk_refresh t) = Some (Some a)}"
  by (auto simp: refresh_iteration_def split: outcome.split option.split)

text \<open>A refresh that returns no access token changes nothing, and does not re-authenticate.\<close>

lemma empty_refresh_keeps_tokens:
  "\<not> needs_full_reauth now (Some t) \<Longrightarrow> rpc (tk_refresh t) = Some None \<Longrightarrow>
   refresh_iteration now auth rpc (Some t) = (Some t, 0)"
  by (simp add: refresh_iteration_def)

subsection \<open>Properties\<close>

text \<open>C24: On both paths, and for every order in which the regions answer, a bundle is reported
  sent exactly when the transaction can be serialised and at least one configured region
  accepted it; the id returned is one that a region returned.\<close>

theorem bundle_sent_iff_accepted:
  assumes "fair_order (rest_order c)" and "fair_order (grpc_order g)"
  shows "(is_ok (rest_send_bundle c tx) \<longleftrightarrow>
      (\<exists>b url u. rest_bytes c tx = Some b \<and> url \<in> set (rest_urls c) \<and>
         send_to_endpoint (rest_post c) (rest_parse c) (rest_encode c b) url = Ok u)) \<and>
    (is_ok (grpc_send_bundle g tx) \<longleftrightarrow>
      (\<exists>b r u. grpc_bytes g tx = Some b \<and> r \<in> set (grpc_regions g) \<and>
         send_to_region (grpc_valid_header g) (grpc_call g) b r = Ok u))"
proof
  show "is_ok (rest_send_bundle c tx) \<longleftrightarrow>
      (\<exists>b url u. rest_bytes c tx = Some b \<and> url \<in> set (rest_urls c) \<and>
         send_to_endpoint (rest_post c) (rest_parse c) (rest_encode c b) url = Ok u)"
  proof (cases "rest_bytes c tx")
    case None
    then show ?thesis by (simp add: rest_send_bundle_def)
  next
    case (Some b)
    have "is_ok (rest_send_bundle c tx) \<longleftrightarrow> (\<exists>u. Ok u \<in> set (rest_attempts c b))"
      using assms(1) Some attempts_not_Panic(1) by (rule rest.send_iff_accepted)
    also have "\<dots> \<longleftrightarrow> (\<exists>url u. url \<in> set (rest_urls c) \<and>
        send_to_endpoint (rest_post c) (rest_parse c) (rest_encode c b) url = Ok u)"
      unfolding rest_attempts_def set_map image_iff by (metis (no_types))
    finally show ?thesis using Some by simp
  qed
  show "is_ok (grpc_send_bundle g tx) \<longleftrightarrow>
      (\<exists>b r u. grpc_bytes g tx = Some b \<and> r \<in> set (grpc_regions g) \<and>
         send_to_region (grpc_valid_header g) (grpc_call g) b r = Ok u)"
  proof (cases "grpc_bytes g tx")
    case None
    then show ?thesis by (simp add: grpc_send_bundle_def)
  next
    case (Some b)
    have "is_ok (grpc_send_bundle g tx) \<longleftrightarrow> (\<exists>u. Ok u \<in> set (grpc_attempts g b))"
      using assms(2) Some attempts_not_Panic(2) by (rule grpc.send_iff_accepted)
    also have "\<dots> \<longleftrightarrow> (\<exists>r u. r \<in> set (grpc_regions g) \<and>
        send_to_region (grpc_valid_header g) (grpc_call g) b r = Ok u)"
      unfolding grpc_attempts_def set_map image_iff by (metis (no_types))
    finally show ?thesis using Some by simp
  qed
qed

definition sample_rest :: rest_client where
  "sample_rest = \<lparr>rest_urls = [''u1'', ''u2''],
     rest_post = (\<lambda>url _. if url = ''u1'' then RestUnsent else RestReply 200 ''id''),
     rest_parse = (\<lambda>b. Some \<lparr>rs_result = Some b, rs_error = None\<rparr>),
     rest_encode = plain_enc, rest_bytes = (\<lambda>_. Some [1]), rest_order = rev\<rparr>"

definition sample_grpc :: grpc_client where
  "sample_grpc = \<lparr>grpc_regions = [], grpc_valid_header = (\<lambda>_. True),
     grpc_call = (\<lambda>_ _. GrpcTimeout), grpc_bytes = (\<lambda>_. Some [1]), grpc_order = id\<rparr>"

theorem bundle_sent_iff_accepted_witness:
  "is_ok (rest_send_bundle sample_rest \<lparr>vt_message = Legacy [], vt_signatures = []\<rparr>)"
proof -
  have "fair_order (rest_order sample_rest)" "fair_order (grpc_order sample_grpc)"
    by (simp_all add: fair_order_def sample_rest_def sample_grpc_def)
  note sent = conjunct1 [OF bundle_sent_iff_accepted [OF this]]
  have "send_to_endpoint (rest_post sample_rest) (rest_parse sample_rest)
      (rest_encode sample_rest [1]) ''u2'' = Ok ''id''"
    by (simp add: sample_rest_def send_to_endpoint_def is_success_def)
  moreover have "rest_bytes sample_rest \<lparr>vt_message = Legacy [], vt_signatures = []\<rparr> = Some [1]"
    "''u2'' \<in> set (rest_urls sample_rest)"
    by (simp_all add: sample_rest_def)
  ultimately show ?thesis unfolding sent by blast
qed

text \<open>Connecting keeps, in order, exactly the reachable endpoints, each with the tokens its
  own authentication gave (none when it failed), counts them right, and fails only when no
  endpoint is reachable.\<close>

theorem connect_all_regions:
  "connect_all reachable auth endpoints =
     (let rs = map (\<lambda>e. \<lparr>rg_endpoint = e, rg_tokens = (case auth e of Ok t \<Rightarrow> Some t | _ \<Rightarrow> None)\<rparr>)
          (filter reachable endpoints)
      in if rs = [] then Err ()
         else Ok (rs, length (filter (\<lambda>r. rg_tokens r \<noteq> None) rs),
                      length (filter (\<lambda>r. rg_tokens r = None) rs)))"
  by (simp add: connect_all_def connect_all_fold Let_def)

lemma refresh_iteration_extra: "snd (refresh_iteration now auth rpc toks) \<le> 30"
  by (simp add: refresh_iteration_def split: option.split outcome.split)

lemma refresh_sleep_range: "10 \<le> unat (refresh_sleep now toks) \<and> unat (refresh_sleep now toks) \<le> 300"
proof (cases toks)
  case (Some t)
  let ?d = "saturating_sub (saturating_sub (tk_access_expires_at t) now) 60"
  have "unat (min (max ?d 10) 300) = min (max (unat ?d) 10) 300"
    by (auto simp: min_def max_def word_le_nat_alt)
  with Some show ?thesis by (simp add: refresh_sleep_def)
qed (simp add: refresh_sleep_def)



text \<open>C31: An authenticated region never falls back to unauthenticated sending: after any number
  of rounds of the refresh task, whatever the service answers, it still has tokens, and its
  refresh token comes from a full authentication; and every round lasts between 10 and 330
  seconds, so the task neither spins nor stalls.\<close>

theorem region_stays_authenticated:
  "\<exists>t' n'. token_refresh_loop rounds (Some t, n) = (Some t', n') \<and>
    tk_refresh t' \<in> insert (tk_refresh t) {tk_refresh new | new r. r \<in> set rounds \<and> rd_auth r = Ok new} \<and>
    n + 10 * length rounds \<le> n' \<and> n' \<le> n + 330 * length rounds"
proof (induction rounds arbitrary: t n)
  case Nil
  then show ?case by (simp add: token_refresh_loop_def)
next
  case (Cons r rounds)
  let ?now = "now_secs (rd_after r)"
  obtain t1 extra where step: "refresh_iteration ?now (rd_auth r) (rd_rpc r) (Some t) = (Some t1, extra)"
    and t1: "tk_refresh t1 = tk_refresh t \<or> rd_auth r = Ok t1" and extra: "extra \<le> 30"
    using refresh_iteration_cases [of ?now "rd_auth r" "rd_rpc r" "Some t"]
      refresh_iteration_extra [of ?now "rd_auth r" "rd_rpc r" "Some t"] by fastforce
  let ?s = "refresh_sleep (now_secs (rd_before r)) (Some t)"
  note sleep = refresh_sleep_range [of "now_secs (rd_before r)" "Some t"]
  obtain t' n' where rest: "token_refresh_loop rounds (Some t1, n + unat ?s + extra) = (Some t', n')"
    and "tk_refresh t' \<in> insert (tk_refresh t1)
      {tk_refresh new | new r. r \<in> set rounds \<and> rd_auth r = Ok new}"
    and "n + unat ?s + extra + 10 * length rounds \<le> n'"
    and "n' \<le> n + unat ?s + extra + 330 * length rounds"
    using Cons.IH [of t1 "n + unat ?s + extra"] by blast
  moreover from rest have "token_refresh_loop (r # rounds) (Some t, n) = (Some t', n')"
    by (simp add: token_refresh_loop_def run_round_def step)
  ultimately show ?case using t1 sleep extra by (intro exI [of _ t'] exI [of _ n']) auto
qed

text \<open>Authentication signs and sends back one and the same challenge, the one the service
  issued prefixed with the key's text, and its tokens carry the service's expiry times.\<close>

theorem authenticate_signs_challenge:
  assumes "authenticate svc to_text pubkey = Ok t"
  shows "\<exists>nonce challenge acc ref. as_challenge svc pubkey = Some nonce \<and>
    challenge = to_text pubkey @ ''-'' @ nonce \<and>
    as_tokens svc challenge pubkey (as_sign svc challenge) = Some (Some acc, Some ref) \<and>
    tk_access t = fst acc \<and> tk_access_expires_at t = timestamp_secs (snd acc) \<and>
    tk_refresh t = fst ref \<and> tk_refresh_expires_at t = timestamp_secs (snd ref)"
  using assms by (auto simp: authenticate_def Let_def outcome_simps split: prod.splits)

theorem authenticate_signs_challenge_witness:
  "\<exists>t. authenticate \<lparr>as_challenge = (\<lambda>_. Some ''n''), as_sign = (\<lambda>_. [1]),
       as_tokens = (\<lambda>c p s. if c = ''k-n'' then Some (Some (''a'', Some 5), Some (''r'', None)) else None)\<rparr>
     (\<lambda>_. ''k'') [] = Ok t \<and> tk_access t = ''a''"
proof -
  let ?svc = "\<lparr>as_challenge = (\<lambda>_. Some ''n''), as_sign = (\<lambda>_. [1]),
       as_tokens = (\<lambda>c p s. if c = ''k-n'' then Some (Some (''a'', Some 5), Some (''r'', None)) else None)\<rparr>"
  obtain t where t: "authenticate ?svc (\<lambda>_. ''k'') [] = Ok t"
    by (simp add: authenticate_def Let_def)
  from authenticate_signs_challenge [OF t] t show ?thesis by auto
qed

end
