(* ===== verification/Workers.thy ===== *)
theory Workers
  imports ScanLaws JitoSenders
begin

text \<open>
  The worker loop of \<open>spawn_workers\<close> in \<open>src/src/arbitrage.rs\<close>, cut where it awaits: taking a
  permit, popping the newest item, deciding (stale, REST slot, gRPC slot, requeue), building
  and checking the transaction, sending it.  Each block between two awaits is a function on
  the shared state; theory \<open>Pipeline\<close> interleaves them.
\<close>

subsection \<open>State\<close>

record calc_env =
  ce_sdk :: sdk
  ce_rpc :: rpc
  ce_payer :: pubkey
  ce_cu_limits :: "u32 list"
  ce_bytes :: tx_bytes_fn
  ce_rest :: rest_client
  ce_grpc :: "grpc_client option"
  ce_queue_max_age_ms :: u64

record bot =
  bt_pipe :: pipeline_state
  bt_limiter :: rate_limiter
  bt_grpc_limiter :: "rate_limiter option"
  bt_alts :: alt_cache
  bt_blockhash :: bytes

definition map_pipe :: "(pipeline_state \<Rightarrow> pipeline_state) \<Rightarrow> bot \<Rightarrow> bot" where
  "map_pipe f b = b\<lparr>bt_pipe := f (bt_pipe b)\<rparr>"

definition map_metrics :: "(metrics \<Rightarrow> metrics) \<Rightarrow> bot \<Rightarrow> bot" where
  "map_metrics f = map_pipe (\<lambda>p. p\<lparr>ps_metrics := f (ps_metrics p)\<rparr>)"

subsection \<open>The blocks of one iteration\<close>

text \<open>\<open>acquire().await\<close> and \<open>forget()\<close>: one permit less; \<open>None\<close> while there is none.\<close>

definition worker_acquire :: "bot \<Rightarrow> bot option" where
  "worker_acquire b =
     (if ps_sem (bt_pipe b) = 0 then None
      else Some (map_pipe (\<lambda>p. p\<lparr>ps_sem := ps_sem p - 1\<rparr>) b))"

definition worker_pop :: "bot \<Rightarrow> bot \<times> ready_instruction option" where
  "worker_pop b =
     (if ps_lifo (bt_pipe b) = [] then (b, None)
      else (map_metrics (\<lambda>m. m\<lparr>queue_depth := queue_depth m - 1\<rparr>)
              (map_pipe (\<lambda>p. p\<lparr>ps_lifo := butlast (ps_lifo p)\<rparr>) b),
            Some (last (ps_lifo (bt_pipe b)))))"

text \<open>\<open>arrived_at.elapsed().as_millis() as u64\<close>.\<close>

definition age_ms :: "instant \<Rightarrow> instant \<Rightarrow> u64" where
  "age_ms now arrived = of_nat (nat (now - arrived) div 1000000)"

datatype decision = Discard | Proceed bool | Requeued

text \<open>\<open>gl.lock().unwrap().try_acquire()\<close> on an optional limiter.\<close>

definition try_grpc :: "instant \<Rightarrow> bot \<Rightarrow> bool \<times> bot" where
  "try_grpc now b =
     (case bt_grpc_limiter b of
        None \<Rightarrow> (False, b)
      | Some gl \<Rightarrow> (case try_acquire now gl of (ok, gl) \<Rightarrow> (ok, b\<lparr>bt_grpc_limiter := Some gl\<rparr>)))"

definition requeue :: "ready_instruction \<Rightarrow> bot \<Rightarrow> bot" where
  "requeue item b =
     (let b = (if \<not> ri_waited_for_slot item
               then map_metrics (\<lambda>m. m\<lparr>rate_requeued := rate_requeued m + 1\<rparr>) b else b)
      in map_pipe (\<lambda>p. p\<lparr>ps_lifo := ps_lifo p @ [item\<lparr>ri_waited_for_slot := True\<rparr>],
             ps_metrics := (ps_metrics p)\<lparr>queue_depth := queue_depth (ps_metrics p) + 1\<rparr>,
             ps_sem := ps_sem p + 1\<rparr>) b)"

definition worker_decide ::
  "u64 \<Rightarrow> instant \<Rightarrow> instant \<Rightarrow> ready_instruction \<Rightarrow> bot \<Rightarrow> bot \<times> decision" where
  "worker_decide queue_max_age_ms now now' item b =
     (if age_ms now (ri_arrived_at item) > queue_max_age_ms
      then (map_metrics (\<lambda>m. m\<lparr>dropped_stale := dropped_stale m + 1,
              tx_dropped := tx_dropped m + 1\<rparr>) b, Discard)
      else case try_acquire now' (bt_limiter b) of
        (rest_ok, rl) \<Rightarrow>
          (let b = b\<lparr>bt_limiter := rl\<rparr> in
           if rest_ok then (b, Proceed False)
           else case try_grpc now' b of
             (grpc_ok, b) \<Rightarrow> if grpc_ok then (b, Proceed True) else (requeue item b, Requeued)))"

datatype build_result = Built versioned_transaction | NotBuilt | Aborted

definition drop_with :: "(metrics \<Rightarrow> metrics) \<Rightarrow> bot \<Rightarrow> bot" where
  "drop_with f b = map_metrics (\<lambda>m. (f m)\<lparr>tx_dropped := tx_dropped m + 1\<rparr>) b"

text \<open>A panic in the blocking task ends the process.\<close>

definition worker_build :: "calc_env \<Rightarrow> nat \<Rightarrow> ready_instruction \<Rightarrow> bot \<Rightarrow> bot \<times> build_result" where
  "worker_build env tip_choice item b =
     (let cu_limit = lookup_cu_limit (ri_hop_count item) (ce_cu_limits env) in
      case build_arb_transaction (ce_sdk env) (ce_rpc env) tip_choice (ri_swap_ixs item) (ce_payer env)
             JITO_TIP_LAMPORTS cu_limit (bt_blockhash b) (bt_alts b) of
        (alts, r) \<Rightarrow>
          (let b = b\<lparr>bt_alts := alts\<rparr> in
           case r of
             Panic \<Rightarrow> (b, Aborted)
           | Err _ \<Rightarrow> (drop_with (\<lambda>m. m\<lparr>tx_build_failed := tx_build_failed m + 1\<rparr>) b, NotBuilt)
           | Ok tx \<Rightarrow>
               if account_lock_count tx > 64
               then (drop_with (\<lambda>m. m\<lparr>dropped_account_locks := dropped_account_locks m + 1\<rparr>) b, NotBuilt)
               else case ce_bytes env tx of
                 None \<Rightarrow> (drop_with (\<lambda>m. m\<lparr>tx_build_failed := tx_build_failed m + 1\<rparr>) b, NotBuilt)
               | Some bs \<Rightarrow>
                   if length bs > 1232
                   then (drop_with (\<lambda>m. m\<lparr>tx_too_large := tx_too_large m + 1\<rparr>) b, NotBuilt)
                   else (map_metrics (\<lambda>m. m\<lparr>calc_done := calc_done m + 1\<rparr>) b, Built tx)))"

definition send_result ::
  "calc_env \<Rightarrow> bool \<Rightarrow> versioned_transaction \<Rightarrow> (send_error, string) outcome" where
  "send_result env use_grpc tx =
     (if use_grpc
      then case ce_grpc env of
             Some g \<Rightarrow> grpc_send_bundle g tx
           | None \<Rightarrow> rest_send_bundle (ce_rest env) tx
      else rest_send_bundle (ce_rest env) tx)"

definition worker_send :: "calc_env \<Rightarrow> bool \<Rightarrow> versioned_transaction \<Rightarrow> bot \<Rightarrow> bot" where
  "worker_send env use_grpc tx b =
     (if is_ok (send_result env use_grpc tx)
      then map_metrics (\<lambda>m. m\<lparr>jito_sent := jito_sent m + 1\<rparr>) b
      else drop_with (\<lambda>m. m\<lparr>jito_send_failed := jito_send_failed m + 1\<rparr>) b)"

subsection \<open>The blocks and the counters\<close>

lemma map_pipe_sel [simp]:
  "bt_pipe (map_pipe f b) = f (bt_pipe b)" "bt_limiter (map_pipe f b) = bt_limiter b"
  "bt_grpc_limiter (map_pipe f b) = bt_grpc_limiter b" "bt_alts (map_pipe f b) = bt_alts b"
  "bt_blockhash (map_pipe f b) = bt_blockhash b"
  by (simp_all add: map_pipe_def)

lemma map_metrics_sel [simp]:
  "ps_metrics (bt_pipe (map_metrics f b)) = f (ps_metrics (bt_pipe b))"
  "ps_lifo (bt_pipe (map_metrics f b)) = ps_lifo (bt_pipe b)"
  "ps_sem (bt_pipe (map_metrics f b)) = ps_sem (bt_pipe b)"
  "ps_store (bt_pipe (map_metrics f b)) = ps_store (bt_pipe b)"
  "bt_limiter (map_metrics f b) = bt_limiter b"
  "bt_grpc_limiter (map_metrics f b) = bt_grpc_limiter b"
  "bt_alts (map_metrics f b) = bt_alts b"
  by (simp_all add: map_metrics_def)

lemma drop_with_sel [simp]:
  "ps_metrics (bt_pipe (drop_with f b)) =
     (f (ps_metrics (bt_pipe b)))\<lparr>tx_dropped := tx_dropped (ps_metrics (bt_pipe b)) + 1\<rparr>"
  "ps_lifo (bt_pipe (drop_with f b)) = ps_lifo (bt_pipe b)"
  "ps_sem (bt_pipe (drop_with f b)) = ps_sem (bt_pipe b)"
  "ps_store (bt_pipe (drop_with f b)) = ps_store (bt_pipe b)"
  "bt_alts (drop_with f b) = bt_alts b"
  by (simp_all add: drop_with_def)

lemma try_grpc_pipe [simp]:
  "try_grpc now b = (ok, b') \<Longrightarrow> bt_pipe b' = bt_pipe b"
  "try_grpc now b = (ok, b') \<Longrightarrow> bt_alts b' = bt_alts b"
  "try_grpc now b = (ok, b') \<Longrightarrow> bt_limiter b' = bt_limiter b"
  by (auto simp: try_grpc_def split: option.splits prod.splits)

text \<open>What a block did with the queue: the length of the stack, the permits and the depth gauge.\<close>

lemma requeue_effect [simp]:
  "ps_lifo (bt_pipe (requeue item b)) = ps_lifo (bt_pipe b) @ [item\<lparr>ri_waited_for_slot := True\<rparr>]"
  "ps_sem (bt_pipe (requeue item b)) = ps_sem (bt_pipe b) + 1"
  "ps_store (bt_pipe (requeue item b)) = ps_store (bt_pipe b)"
  "queue_depth (ps_metrics (bt_pipe (requeue item b))) = queue_depth (ps_metrics (bt_pipe b)) + 1"
  "queue_in (ps_metrics (bt_pipe (requeue item b))) = queue_in (ps_metrics (bt_pipe b))"
  "bt_alts (requeue item b) = bt_alts b"
  "counters_ok (ps_metrics (bt_pipe (requeue item b))) = counters_ok (ps_metrics (bt_pipe b))"
  by (simp_all add: requeue_def Let_def counters_ok_def scan_drops_def)

text \<open>The items that left the queue for good.\<close>

definition finished :: "metrics \<Rightarrow> u64" where
  "finished m = dropped_stale m + tx_build_failed m + tx_too_large m + dropped_account_locks m +
     jito_send_failed m + jito_sent m"

lemma finished_requeue [simp]:
  "finished (ps_metrics (bt_pipe (requeue item b))) = finished (ps_metrics (bt_pipe b))"
  by (simp add: requeue_def Let_def finished_def)

end
