(* ===== verification/Pipeline.thy ===== *)
theory Pipeline
  imports Workers
begin

text \<open>
  The scanner, the routing engine's answers and the workers of theories \<open>Scan\<close> and
  \<open>Workers\<close>, interleaved: a step relation on the shared state, the workers' control points
  and the requests in flight.  An invariant is an interpretation of the locale
  \<open>kept_invariant\<close>, whose one induction carries it along every run.
\<close>

text \<open>Where a worker is: waiting for a permit, holding one, deciding on an item, building its
  transaction, sending it, or sleeping after a requeue.\<close>

datatype worker =
    Waiting | Permit | Deciding ready_instruction | Building ready_instruction bool
  | Sending versioned_transaction bool | Sleeping

record machine =
  mc_bot :: bot
  mc_workers :: "worker list"
  mc_jobs :: "swap_job list"
  mc_windows :: "metrics list"

text \<open>One step of worker \<open>i\<close>, of the scanner, of a finished request, of the blockhash task, or of
  the reporter, which drains the counters: the values it took are kept in \<open>mc_windows\<close>.\<close>

inductive step :: "encoder \<Rightarrow> decoder \<Rightarrow> template_cache_config \<Rightarrow> calc_env \<Rightarrow> machine \<Rightarrow> machine \<Rightarrow> bool"
  for enc dec tc env where
  acquire: "step enc dec tc env s
      (s\<lparr>mc_bot := b, mc_workers := (mc_workers s)[i := Permit]\<rparr>)"
    if "i < length (mc_workers s)" "mc_workers s ! i = Waiting" "worker_acquire (mc_bot s) = Some b"
| pop: "step enc dec tc env s
      (s\<lparr>mc_bot := b, mc_workers := (mc_workers s)[i :=
         (case r of None \<Rightarrow> Waiting | Some item \<Rightarrow> Deciding item)]\<rparr>)"
    if "i < length (mc_workers s)" "mc_workers s ! i = Permit" "worker_pop (mc_bot s) = (b, r)"
| decide: "step enc dec tc env s
      (s\<lparr>mc_bot := b, mc_workers := (mc_workers s)[i :=
         (case d of Discard \<Rightarrow> Waiting | Proceed g \<Rightarrow> Building item g | Requeued \<Rightarrow> Sleeping)]\<rparr>)"
    if "i < length (mc_workers s)" "mc_workers s ! i = Deciding item"
      "worker_decide (ce_queue_max_age_ms env) now now' item (mc_bot s) = (b, d)"
| build: "step enc dec tc env s
      (s\<lparr>mc_bot := b, mc_workers := (mc_workers s)[i :=
         (case r of Built tx \<Rightarrow> Sending tx g | _ \<Rightarrow> Waiting)]\<rparr>)"
    if "i < length (mc_workers s)" "mc_workers s ! i = Building item g"
      "worker_build env tip item (mc_bot s) = (b, r)" "r \<noteq> Aborted"
| send: "step enc dec tc env s
      (s\<lparr>mc_bot := worker_send env g tx (mc_bot s), mc_workers := (mc_workers s)[i := Waiting]\<rparr>)"
    if "i < length (mc_workers s)" "mc_workers s ! i = Sending tx g"
| wake: "step enc dec tc env s (s\<lparr>mc_workers := (mc_workers s)[i := Waiting]\<rparr>)"
    if "i < length (mc_workers s)" "mc_workers s ! i = Sleeping"
| scan: "step enc dec tc env s
      (s\<lparr>mc_bot := (mc_bot s)\<lparr>bt_pipe := p\<rparr>,
         mc_jobs := (case job of None \<Rightarrow> mc_jobs s | Some j \<Rightarrow> j # mc_jobs s)\<rparr>)"
    if "scan_pair enc dec tc now pair (bt_pipe (mc_bot s)) = Ok (p, job)"
| finish: "step enc dec tc env s
      (s\<lparr>mc_bot := map_pipe (finish_swap_job dec job r ms now) (mc_bot s),
         mc_jobs := js @ js'\<rparr>)"
    if "mc_jobs s = js @ job # js'" "r \<noteq> Panic"
| quote: "step enc dec tc env s
      (s\<lparr>mc_bot := map_metrics (\<lambda>m. fst (quote_check qf mint amount direct mp m tm)) (mc_bot s)\<rparr>)"
| blockhash: "step enc dec tc env s
      (s\<lparr>mc_bot := (mc_bot s)\<lparr>bt_blockhash := refresh_blockhash r (bt_blockhash (mc_bot s))\<rparr>\<rparr>)"
| report: "step enc dec tc env s
      (s\<lparr>mc_bot := map_metrics (\<lambda>_. fst (report_window (ps_store (bt_pipe (mc_bot s)))
           (ps_metrics (bt_pipe (mc_bot s))))) (mc_bot s),
         mc_windows := ps_metrics (bt_pipe (mc_bot s)) # mc_windows s\<rparr>)"

definition initial :: "nat \<Rightarrow> bot \<Rightarrow> machine" where
  "initial n b = \<lparr>mc_bot = b, mc_workers = replicate n Waiting, mc_jobs = [], mc_windows = []\<rparr>"

text \<open>The shared state that \<open>main\<close> builds, over a loaded template store.\<close>

definition start_bot :: "u32 \<Rightarrow> u32 option \<Rightarrow> pubkey list \<Rightarrow> bytes \<Rightarrow> store \<Rightarrow> bot" where
  "start_bot rate grpc_rate tips h st =
     \<lparr>bt_pipe = \<lparr>ps_store = st, ps_metrics = new_metrics, ps_lifo = [], ps_sem = 0\<rparr>,
      bt_limiter = new_limiter rate, bt_grpc_limiter = map_option new_limiter grpc_rate,
      bt_alts = new_alt_cache tips, bt_blockhash = h\<rparr>"

inductive reachable :: "encoder \<Rightarrow> decoder \<Rightarrow> template_cache_config \<Rightarrow> calc_env \<Rightarrow> machine \<Rightarrow> machine \<Rightarrow> bool"
  for enc dec tc env s0 where
  reach_init: "reachable enc dec tc env s0 s0"
| reach_step: "reachable enc dec tc env s0 s'"
    if "reachable enc dec tc env s0 s" "step enc dec tc env s s'"

lemma reachable_rtranclp: "reachable enc dec tc env s0 s \<longleftrightarrow> (step enc dec tc env)\<^sup>*\<^sup>* s0 s"
proof
  show "reachable enc dec tc env s0 s \<Longrightarrow> (step enc dec tc env)\<^sup>*\<^sup>* s0 s"
    by (induction rule: reachable.induct) (auto intro: rtranclp.rtrancl_into_rtrancl)
  show "(step enc dec tc env)\<^sup>*\<^sup>* s0 s \<Longrightarrow> reachable enc dec tc env s0 s"
    by (induction rule: rtranclp_induct) (auto intro: reachable.intros)
qed

text \<open>What holds along every run of a transition system.\<close>

locale kept_invariant =
  fixes move :: "'s \<Rightarrow> 's \<Rightarrow> bool" and inv :: "'s \<Rightarrow> bool"
  assumes keeps: "inv s \<Longrightarrow> move s s' \<Longrightarrow> inv s'"
begin

lemma always: "move\<^sup>*\<^sup>* s s' \<Longrightarrow> inv s \<Longrightarrow> inv s'"
  by (induction rule: rtranclp_induct) (auto intro: keeps)

end

subsection \<open>Counting workers\<close>

definition count_workers :: "(worker \<Rightarrow> bool) \<Rightarrow> machine \<Rightarrow> nat" where
  "count_workers P s = length (filter P (mc_workers s))"

lemma count_update:
  assumes "i < length ws"
  shows "length (filter P (ws[i := w])) + (if P (ws ! i) then 1 else 0) =
    length (filter P ws) + (if P w then 1 else 0)"
proof -
  have ws: "ws = take i ws @ ws ! i # drop (Suc i) ws" using assms by (rule id_take_nth_drop)
  have "ws[i := w] = take i ws @ w # drop (Suc i) ws" using assms by (rule upd_conv_take_nth_drop)
  moreover have "length (filter P ws) =
      length (filter P (take i ws @ ws ! i # drop (Suc i) ws))"
    using ws by (rule arg_cong [where f = "\<lambda>ws. length (filter P ws)"])
  ultimately show ?thesis by simp
qed

fun holds_permit :: "worker \<Rightarrow> bool" where
  "holds_permit Permit = True"
| "holds_permit _ = False"

fun holds_item :: "worker \<Rightarrow> bool" where
  "holds_item (Deciding _) = True"
| "holds_item (Building _ _) = True"
| "holds_item (Sending _ _) = True"
| "holds_item _ = False"

subsection \<open>The invariant\<close>

text \<open>A counter's total: its present value and what the reporter took.\<close>

definition total :: "(metrics \<Rightarrow> u64) \<Rightarrow> machine \<Rightarrow> u64" where
  "total f s = f (ps_metrics (bt_pipe (mc_bot s))) + sum_list (map f (mc_windows s))"

text \<open>Every queued item has a permit, in the semaphore or in a worker's hands; the gauge is the
  stack's length; the counters add up; every item queued is on the stack, in a worker's hands
  or finished.\<close>

definition queue_inv :: "machine \<Rightarrow> bool" where
  "queue_inv s \<longleftrightarrow>
     (let p = bt_pipe (mc_bot s); m = ps_metrics p in
      length (ps_lifo p) = ps_sem p + count_workers holds_permit s \<and>
      queue_depth m = of_nat (length (ps_lifo p)) \<and>
      total queue_in s = of_nat (length (ps_lifo p) + count_workers holds_item s) + total finished s \<and>
      counters_ok m \<and> (\<forall>w \<in> set (mc_windows s). counters_ok w))"

lemma balance:
  fixes L L' C C' hi hw f f' Q Q' W1 W2 :: u64
  assumes "Q + W1 = (L + C) + (f + W2)" "Q' = Q" "(L' + hw) + f' = (L + hi) + f" "C' + hi = C + hw"
  shows "Q' + W1 = (L' + C') + (f' + W2)"
proof -
  have "((L' + hw) + f') + (C' + hi) = ((L + hi) + f) + (C + hw)" using assms(3,4) by simp
  then have "(hw + hi) + (L' + C' + f') = (hw + hi) + (L + C + f)" by (simp only: ac_simps)
  then have "L' + C' + f' = L + C + f" by (simp only: add_left_cancel)
  then have "(L' + C' + f') + W2 = (L + C + f) + W2" by simp
  with assms(1,2) show ?thesis by (simp add: ac_simps)
qed

text \<open>How a step of worker \<open>i\<close> moves the four components.\<close>

lemma queue_inv_worker:
  assumes "queue_inv s" and "i < length (mc_workers s)"
    and "s' = s\<lparr>mc_bot := b, mc_workers := (mc_workers s)[i := w]\<rparr>"
    and lifo: "length (ps_lifo (bt_pipe b)) + ps_sem (bt_pipe (mc_bot s)) +
        (if holds_permit (mc_workers s ! i) then 1 else 0) =
      length (ps_lifo (bt_pipe (mc_bot s))) + ps_sem (bt_pipe b) + (if holds_permit w then 1 else 0)"
    and depth: "queue_depth (ps_metrics (bt_pipe b)) + of_nat (length (ps_lifo (bt_pipe (mc_bot s)))) =
      queue_depth (ps_metrics (bt_pipe (mc_bot s))) + of_nat (length (ps_lifo (bt_pipe b)))"
    and qin: "queue_in (ps_metrics (bt_pipe b)) = queue_in (ps_metrics (bt_pipe (mc_bot s)))"
    and fin: "of_nat (length (ps_lifo (bt_pipe b)) + (if holds_item w then 1 else 0)) +
        finished (ps_metrics (bt_pipe b)) =
      of_nat (length (ps_lifo (bt_pipe (mc_bot s))) + (if holds_item (mc_workers s ! i) then 1 else 0)) +
        finished (ps_metrics (bt_pipe (mc_bot s)))"
    and ctr: "counters_ok (ps_metrics (bt_pipe b))"
  shows "queue_inv s'"
proof -
  let ?p = "bt_pipe (mc_bot s)" and ?q = "bt_pipe b"
  note perm = count_update [OF assms(2), of holds_permit w]
  note item = count_update [OF assms(2), of holds_item w]
  have inv: "length (ps_lifo ?p) = ps_sem ?p + count_workers holds_permit s"
    "queue_depth (ps_metrics ?p) = of_nat (length (ps_lifo ?p))"
    "total queue_in s = of_nat (length (ps_lifo ?p) + count_workers holds_item s) + total finished s"
    "\<forall>w \<in> set (mc_windows s). counters_ok w"
    using assms(1) by (simp_all add: queue_inv_def Let_def)
  have "length (ps_lifo ?q) = ps_sem ?q + count_workers holds_permit s'"
    using perm inv(1) lifo by (simp add: assms(3) count_workers_def split: if_splits)
  moreover have "queue_depth (ps_metrics ?q) = of_nat (length (ps_lifo ?q))"
    using depth inv(2) by simp
  moreover have "total queue_in s' =
      of_nat (length (ps_lifo ?q) + count_workers holds_item s') + total finished s'"
  proof -
    have "(of_nat (count_workers holds_item s' + (if holds_item (mc_workers s ! i) then 1 else 0)) :: u64) =
        of_nat (count_workers holds_item s + (if holds_item w then 1 else 0))"
      using item by (simp add: assms(3) count_workers_def)
    from balance [OF inv(3) [unfolded total_def of_nat_add] qin fin [unfolded of_nat_add] this [unfolded of_nat_add]]
    show ?thesis by (simp add: total_def assms(3))
  qed
  ultimately show ?thesis using ctr inv(4) by (simp add: queue_inv_def Let_def assms(3))
qed


text \<open>Steps of the scanner and the requests: \<open>k\<close> items are pushed with their permits.\<close>

definition pushed :: "nat \<Rightarrow> pipeline_state \<Rightarrow> pipeline_state \<Rightarrow> bool" where
  "pushed k p p' \<longleftrightarrow>
     length (ps_lifo p') = length (ps_lifo p) + k \<and> ps_sem p' = ps_sem p + k \<and>
     queue_depth (ps_metrics p') = queue_depth (ps_metrics p) + of_nat k \<and>
     queue_in (ps_metrics p') = queue_in (ps_metrics p) + of_nat k \<and>
     finished (ps_metrics p') = finished (ps_metrics p)"

lemma queue_inv_pushed:
  assumes "queue_inv s" and "mc_workers s' = mc_workers s" and "mc_windows s' = mc_windows s"
    and "pushed k (bt_pipe (mc_bot s)) (bt_pipe (mc_bot s'))"
    and "counters_ok (ps_metrics (bt_pipe (mc_bot s')))"
  shows "queue_inv s'"
  using assms by (simp add: queue_inv_def Let_def pushed_def count_workers_def total_def algebra_simps)

lemma pushed_looked: "looked dec p p1 \<Longrightarrow> pushed k p1 p' \<Longrightarrow> pushed k p p'"
  by (auto simp: looked_def pushed_def finished_def)

lemma pushed_served: "served ixs n now p p' \<Longrightarrow> pushed 1 p p'"
  by (auto simp: served_def pushed_def push_to_queue_def Let_def finished_def)

lemma scan_pair_pushed:
  assumes "scan_pair enc dec tc now pair p = Ok (p', job)"
  shows "\<exists>k. pushed k p p'"
  using assms
proof (cases rule: scan_pair_cases)
  case (served p1 ixs)
  then show ?thesis using pushed_looked pushed_served by blast
next
  case (unserved p1 merged)
  from unserved(3) have "pushed 0 p1 p'"
    by (auto simp: tier3_def Let_def pushed_def finished_def split: if_splits)
  with unserved(1) show ?thesis using pushed_looked by blast
qed (auto intro!: exI [of _ 0] simp: pushed_def finished_def)

lemma finish_pushed: "r \<noteq> Panic \<Longrightarrow> \<exists>k. pushed k p (finish_swap_job dec job r ms now p)"
proof (cases r)
  case (Ok ixs)
  then have "pushed 1 p (finish_swap_job dec job r ms now p)"
    by (simp add: finish_swap_job_def push_to_queue_def Let_def pushed_def finished_def)
  then show ?thesis ..
next
  case (Err e)
  then have "pushed 0 p (finish_swap_job dec job r ms now p)"
    by (cases e) (simp_all add: finish_swap_job_def Let_def pushed_def finished_def)
  then show ?thesis ..
qed simp

lemma quote_check_pushed:
  "pushed 0 p (p\<lparr>ps_metrics := fst (quote_check qf mint a d mp (ps_metrics p) tm)\<rparr>)"
  by (simp add: quote_check_def judge_quotes_def Let_def pushed_def finished_def
      split: outcome.split option.split)

text \<open>A worker that holds a permit finds an item.\<close>

lemma permit_has_item:
  assumes "queue_inv s" and "i < length (mc_workers s)" and "mc_workers s ! i = Permit"
  shows "ps_lifo (bt_pipe (mc_bot s)) \<noteq> []"
proof -
  have "Permit \<in> set (mc_workers s)" using assms(2,3) by (metis nth_mem)
  then have "count_workers holds_permit s \<noteq> 0"
    by (auto simp: count_workers_def filter_empty_conv intro!: bexI [of _ Permit])
  with assms(1) show ?thesis by (auto simp: queue_inv_def Let_def)
qed

lemma worker_decide_effect:
  assumes "worker_decide mx now now' item b = (b', d)" and "counters_ok (ps_metrics (bt_pipe b))"
  shows "queue_in (ps_metrics (bt_pipe b')) = queue_in (ps_metrics (bt_pipe b)) \<and>
    counters_ok (ps_metrics (bt_pipe b')) \<and> bt_alts b' = bt_alts b \<and>
    ps_store (bt_pipe b') = ps_store (bt_pipe b) \<and>
    (case d of
       Discard \<Rightarrow> ps_lifo (bt_pipe b') = ps_lifo (bt_pipe b) \<and> ps_sem (bt_pipe b') = ps_sem (bt_pipe b) \<and>
         queue_depth (ps_metrics (bt_pipe b')) = queue_depth (ps_metrics (bt_pipe b)) \<and>
         finished (ps_metrics (bt_pipe b')) = finished (ps_metrics (bt_pipe b)) + 1
     | Proceed g \<Rightarrow> bt_pipe b' = bt_pipe b
     | Requeued \<Rightarrow>
         length (ps_lifo (bt_pipe b')) = length (ps_lifo (bt_pipe b)) + 1 \<and>
         ps_sem (bt_pipe b') = ps_sem (bt_pipe b) + 1 \<and>
         queue_depth (ps_metrics (bt_pipe b')) = queue_depth (ps_metrics (bt_pipe b)) + 1 \<and>
         finished (ps_metrics (bt_pipe b')) = finished (ps_metrics (bt_pipe b)))"
proof (cases "age_ms now (ri_arrived_at item) > mx")
  case True
  then have "b' = map_metrics (\<lambda>m. m\<lparr>dropped_stale := dropped_stale m + 1,
      tx_dropped := tx_dropped m + 1\<rparr>) b" "d = Discard"
    using assms(1) by (simp_all add: worker_decide_def)
  then show ?thesis
    using assms(2) by (simp add: map_metrics_def finished_def counters_ok_def scan_drops_def)
next
  case False
  obtain rest_ok rl where rest: "try_acquire now' (bt_limiter b) = (rest_ok, rl)" by fastforce
  let ?b = "b\<lparr>bt_limiter := rl\<rparr>"
  obtain grpc_ok b2 where grpc: "try_grpc now' ?b = (grpc_ok, b2)" by fastforce
  have b2: "bt_pipe b2 = bt_pipe b" "bt_alts b2 = bt_alts b"
    using try_grpc_pipe(1,2) [OF grpc] by simp_all
  have "(b', d) = (if rest_ok then (?b, Proceed False)
      else if grpc_ok then (b2, Proceed True) else (requeue item b2, Requeued))"
    using assms(1) False rest grpc by (cases rest_ok) (simp_all add: worker_decide_def Let_def)
  then show ?thesis
    using assms(2) b2 by (auto split: if_splits)
qed

lemma worker_build_effect:
  assumes "worker_build env tip item b = (b', r)" and "counters_ok (ps_metrics (bt_pipe b))"
  shows "queue_in (ps_metrics (bt_pipe b')) = queue_in (ps_metrics (bt_pipe b)) \<and>
    counters_ok (ps_metrics (bt_pipe b')) \<and>
    ps_store (bt_pipe b') = ps_store (bt_pipe b) \<and>
    ps_lifo (bt_pipe b') = ps_lifo (bt_pipe b) \<and> ps_sem (bt_pipe b') = ps_sem (bt_pipe b) \<and>
    queue_depth (ps_metrics (bt_pipe b')) = queue_depth (ps_metrics (bt_pipe b)) \<and>
    finished (ps_metrics (bt_pipe b')) =
      finished (ps_metrics (bt_pipe b)) + (if r = NotBuilt then 1 else 0) \<and>
    (cache_clean tips (bt_alts b) \<longrightarrow> cache_clean tips (bt_alts b')) \<and>
    (\<forall>tx. r = Built tx \<longrightarrow> account_lock_count tx \<le> 64 \<and>
       (\<exists>bs. ce_bytes env tx = Some bs \<and> length bs \<le> 1232))"
proof -
  obtain alts res where bld: "build_arb_transaction (ce_sdk env) (ce_rpc env) tip (ri_swap_ixs item)
      (ce_payer env) JITO_TIP_LAMPORTS (lookup_cu_limit (ri_hop_count item) (ce_cu_limits env))
      (bt_blockhash b) (bt_alts b) = (alts, res)" by fastforce
  have clean: "cache_clean tips (bt_alts b) \<longrightarrow> cache_clean tips alts"
    using build_clean [of tips "bt_alts b"] bld by (metis fst_conv)
  let ?b = "b\<lparr>bt_alts := alts\<rparr>"
  have dropped: ?thesis
    if "b' = drop_with f ?b" "r = NotBuilt"
      "f \<in> {\<lambda>m. m\<lparr>tx_build_failed := tx_build_failed m + 1\<rparr>,
        \<lambda>m. m\<lparr>dropped_account_locks := dropped_account_locks m + 1\<rparr>,
        \<lambda>m. m\<lparr>tx_too_large := tx_too_large m + 1\<rparr>}" for f
    using that assms(2) clean by (auto simp: counters_ok_def scan_drops_def finished_def)
  show ?thesis
  proof (cases res)
    case (Ok tx)
    show ?thesis
    proof (cases "account_lock_count tx \<le> 64 \<and> (\<exists>bs. ce_bytes env tx = Some bs \<and> length bs \<le> 1232)")
      case True
      with Ok bld assms(1) have "b' = map_metrics (\<lambda>m. m\<lparr>calc_done := calc_done m + 1\<rparr>) ?b" "r = Built tx"
        by (auto simp: worker_build_def Let_def)
      with True assms(2) clean show ?thesis by (simp add: counters_ok_def scan_drops_def finished_def)
    next
      case False
      show ?thesis
      proof (cases "account_lock_count tx > 64")
        case True
        with Ok bld assms(1) show ?thesis by (intro dropped) (auto simp: worker_build_def Let_def)
      next
        case locks: False
        show ?thesis
        proof (cases "ce_bytes env tx")
          case None
          with locks Ok bld assms(1) show ?thesis
            by (intro dropped) (auto simp: worker_build_def Let_def)
        next
          case (Some bs)
          with False locks have "length bs > 1232" by auto
          with Some locks Ok bld assms(1) show ?thesis
            by (intro dropped) (auto simp: worker_build_def Let_def)
        qed
      qed
    qed
  next
    case (Err e)
    with bld assms(1) show ?thesis by (intro dropped) (auto simp: worker_build_def Let_def)
  next
    case Panic
    with bld assms(1) have "b' = ?b" "r = Aborted" by (auto simp: worker_build_def Let_def)
    with assms(2) clean show ?thesis by simp
  qed
qed

end
