(* ===== verification/PipelineLaws.thy ===== *)
theory PipelineLaws
  imports Pipeline
begin

text \<open>
  The invariants of the running bot of theory \<open>Pipeline\<close>: every step keeps the queue's
  bookkeeping and the safety conditions on what is sent and cached.
\<close>

subsection \<open>Every step keeps the invariant\<close>

text \<open>Only small transactions are being sent, the store is well-formed, and the lookup tables are
  free of tip accounts.\<close>

definition safe :: "decoder \<Rightarrow> calc_env \<Rightarrow> pubkey list \<Rightarrow> machine \<Rightarrow> bool" where
  "safe dec env tips s \<longleftrightarrow>
     (\<forall>tx g. Sending tx g \<in> set (mc_workers s) \<longrightarrow>
        account_lock_count tx \<le> 64 \<and> (\<exists>bs. ce_bytes env tx = Some bs \<and> length bs \<le> 1232)) \<and>
     store_inv dec (ps_store (bt_pipe (mc_bot s))) \<and>
     cache_clean tips (bt_alts (mc_bot s))"

lemma safe_worker:
  assumes "safe dec env tips s" and "s' = s\<lparr>mc_bot := b, mc_workers := (mc_workers s)[i := w]\<rparr>"
    and "ps_store (bt_pipe b) = ps_store (bt_pipe (mc_bot s))"
    and "cache_clean tips (bt_alts (mc_bot s)) \<Longrightarrow> cache_clean tips (bt_alts b)"
    and "\<And>tx g. w = Sending tx g \<Longrightarrow> account_lock_count tx \<le> 64 \<and>
      (\<exists>bs. ce_bytes env tx = Some bs \<and> length bs \<le> 1232)"
  shows "safe dec env tips s'"
proof -
  have "w' = w \<or> w' \<in> set (mc_workers s)" if "w' \<in> set ((mc_workers s)[i := w])" for w'
    using that set_update_subset_insert [of "mc_workers s" i w] by auto
  then show ?thesis using assms unfolding safe_def by fastforce
qed

lemma safe_env:
  assumes "safe dec env tips s" and "mc_workers s' = mc_workers s"
    and "store_inv dec (ps_store (bt_pipe (mc_bot s')))"
    and "bt_alts (mc_bot s') = bt_alts (mc_bot s)"
  shows "safe dec env tips s'"
  using assms by (simp add: safe_def)

lemma queue_invD:
  assumes "queue_inv s"
  shows "length (ps_lifo (bt_pipe (mc_bot s))) =
      ps_sem (bt_pipe (mc_bot s)) + count_workers holds_permit s"
    and "queue_depth (ps_metrics (bt_pipe (mc_bot s))) = of_nat (length (ps_lifo (bt_pipe (mc_bot s))))"
    and "total queue_in s =
      of_nat (length (ps_lifo (bt_pipe (mc_bot s))) + count_workers holds_item s) + total finished s"
    and "counters_ok (ps_metrics (bt_pipe (mc_bot s)))"
    and "\<forall>w \<in> set (mc_windows s). counters_ok w"
  using assms by (simp_all add: queue_inv_def Let_def)

lemma step_queue_inv:
  assumes "step enc dec tc env s s'" and inv: "queue_inv s"
  shows "queue_inv s'"
  using assms(1)
proof (cases rule: step.cases)
  case (acquire i b)
  then have b: "b = map_pipe (\<lambda>p. p\<lparr>ps_sem := ps_sem p - 1\<rparr>) (mc_bot s)"
    and sem: "ps_sem (bt_pipe (mc_bot s)) \<noteq> 0"
    by (auto simp: worker_acquire_def split: if_splits)
  from inv acquire(2,1) show ?thesis
    by (rule queue_inv_worker) (use queue_invD(4) [OF inv] sem acquire(3) in \<open>simp_all add: b\<close>)
next
  case (pop i b r)
  with permit_has_item [OF inv] have ne: "ps_lifo (bt_pipe (mc_bot s)) \<noteq> []" by simp
  with pop(4) have b: "b = map_metrics (\<lambda>m. m\<lparr>queue_depth := queue_depth m - 1\<rparr>)
      (map_pipe (\<lambda>p. p\<lparr>ps_lifo := butlast (ps_lifo p)\<rparr>) (mc_bot s))"
    and r: "r = Some (last (ps_lifo (bt_pipe (mc_bot s))))"
    by (auto simp: worker_pop_def)
  obtain n where n: "length (ps_lifo (bt_pipe (mc_bot s))) = Suc n"
    using ne by (metis length_0_conv not0_implies_Suc)
  from inv pop(2,1) show ?thesis
    by (rule queue_inv_worker)
      (use queue_invD(4) [OF inv] n pop(3) in \<open>simp_all add: b r finished_def counters_ok_def scan_drops_def\<close>)
next
  case (decide i item now now' b d)
  note eff = worker_decide_effect [OF decide(4) queue_invD(4) [OF inv]]
  from inv decide(2,1) show ?thesis
    by (rule queue_inv_worker) (use eff decide(3) in \<open>auto split: decision.splits\<close>)
next
  case (build i item g tip b r)
  note eff = worker_build_effect [OF build(4) queue_invD(4) [OF inv]]
  from inv build(2,1) show ?thesis
    by (rule queue_inv_worker) (use eff build(3,5) in \<open>auto split: build_result.splits\<close>)
next
  case (send i tx g)
  from inv send(2,1) show ?thesis
    by (rule queue_inv_worker)
      (use queue_invD(4) [OF inv] send(3) in \<open>simp_all add: worker_send_def finished_def
        counters_ok_def scan_drops_def\<close>)
next
  case (wake i)
  have s': "s' = s\<lparr>mc_bot := mc_bot s, mc_workers := (mc_workers s)[i := Waiting]\<rparr>"
    using wake(1) by simp
  from inv wake(2) s' show ?thesis
    by (rule queue_inv_worker) (use queue_invD(4) [OF inv] wake(3) in simp_all)
next
  case (scan now pair p job)
  obtain k where "pushed k (bt_pipe (mc_bot s)) p" using scan_pair_pushed [OF scan(2)] ..
  moreover have "counters_ok (ps_metrics p)"
    using counters_ok_scan_pair [OF scan(2)] queue_invD(4) [OF inv] by simp
  ultimately show ?thesis using queue_inv_pushed [OF inv] scan(1) by simp
next
  case (finish js job js' r ms now)
  obtain k where "pushed k (bt_pipe (mc_bot s)) (finish_swap_job dec job r ms now (bt_pipe (mc_bot s)))"
    using finish_pushed [OF finish(3)] by blast
  moreover have "counters_ok (ps_metrics (finish_swap_job dec job r ms now (bt_pipe (mc_bot s))))"
    using counters_ok_finish queue_invD(4) [OF inv] by simp
  ultimately show ?thesis using queue_inv_pushed [OF inv] finish(1) by simp
next
  case (quote qf mint amount direct mp tm)
  have "counters_ok (fst (quote_check qf mint amount direct mp (ps_metrics (bt_pipe (mc_bot s))) tm))"
    using counters_ok_quote_check queue_invD(4) [OF inv] by simp
  with quote show ?thesis
    using queue_inv_pushed [OF inv, where k = 0 and s' = s'] quote_check_pushed
    by (simp add: map_metrics_def map_pipe_def)
next
  case (blockhash r)
  with inv show ?thesis by (simp add: queue_inv_def Let_def count_workers_def total_def)
next
  case report
  have "counters_ok (drained (ps_metrics (bt_pipe (mc_bot s))))"
    by (simp add: counters_ok_def scan_drops_def drained_def)
  moreover have "queue_in (drained m) = 0" "finished (drained m) = 0"
    "queue_depth (drained m) = queue_depth m" for m
    by (simp_all add: drained_def finished_def)
  ultimately show ?thesis
    using report queue_invD [OF inv]
    by (simp add: queue_inv_def Let_def count_workers_def total_def report_window_def)
qed

lemma step_safe:
  assumes "step enc dec tc env s s'" and safe: "safe dec env tips s" and inv: "queue_inv s"
  shows "safe dec env tips s'"
  using assms(1)
proof (cases rule: step.cases)
  case (acquire i b)
  from safe acquire(1) show ?thesis
    by (rule safe_worker) (use acquire(4) in \<open>auto simp: worker_acquire_def split: if_splits\<close>)
next
  case (pop i b r)
  from safe pop(1) show ?thesis
    by (rule safe_worker) (use pop(4) in \<open>auto simp: worker_pop_def split: if_splits option.splits\<close>)
next
  case (decide i item now now' b d)
  have "counters_ok (ps_metrics (bt_pipe (mc_bot s)))" using inv by (simp add: queue_inv_def Let_def)
  note eff = worker_decide_effect [OF decide(4) this]
  from safe decide(1) show ?thesis
    by (rule safe_worker) (use eff in \<open>auto split: decision.splits\<close>)
next
  case (build i item g tip b r)
  have "counters_ok (ps_metrics (bt_pipe (mc_bot s)))" using inv by (simp add: queue_inv_def Let_def)
  note eff = worker_build_effect [OF build(4) this]
  from safe build(1) show ?thesis
    by (rule safe_worker) (use eff in \<open>auto split: build_result.splits\<close>)
next
  case (send i tx g)
  from safe send(1) show ?thesis
    by (rule safe_worker) (auto simp: worker_send_def)
next
  case (wake i)
  have s': "s' = s\<lparr>mc_bot := mc_bot s, mc_workers := (mc_workers s)[i := Waiting]\<rparr>"
    using wake(1) by simp
  from safe s' show ?thesis by (rule safe_worker) simp_all
next
  case (scan now pair p job)
  obtain ops where "ps_store p = fold (run_op dec) ops (ps_store (bt_pipe (mc_bot s)))"
    using scan_pair_store [OF scan(2)] ..
  then have "store_inv dec (ps_store p)" using safe by (simp add: safe_def fold_run_op_keeps)
  with safe scan(1) show ?thesis by (intro safe_env [OF safe]) simp_all
next
  case (finish js job js' r ms now)
  obtain ops where "ps_store (finish_swap_job dec job r ms now (bt_pipe (mc_bot s))) =
      fold (run_op dec) ops (ps_store (bt_pipe (mc_bot s)))"
    using finish_swap_job_store by blast
  then have "store_inv dec (ps_store (finish_swap_job dec job r ms now (bt_pipe (mc_bot s))))"
    using safe by (simp add: safe_def fold_run_op_keeps)
  with finish(1) show ?thesis by (intro safe_env [OF safe]) simp_all
next
  case (quote qf mint amount direct mp tm)
  with safe show ?thesis by (intro safe_env [OF safe]) (simp_all add: safe_def)
next
  case (blockhash r)
  with safe show ?thesis by (intro safe_env [OF safe]) (simp_all add: safe_def)
next
  case report
  with safe show ?thesis by (intro safe_env [OF safe]) (simp_all add: safe_def)
qed


subsection \<open>Reachable states\<close>

lemma initial_inv: "queue_inv (initial n (start_bot rate grpc_rate tips h st))"
  by (simp add: queue_inv_def initial_def start_bot_def Let_def count_workers_def finished_def total_def
      new_metrics_def counters_ok_def scan_drops_def)

lemma initial_safe:
  "store_inv dec st \<Longrightarrow> safe dec env tips (initial n (start_bot rate grpc_rate tips h st))"
  by (simp add: safe_def initial_def start_bot_def cache_clean_new)

interpretation q: kept_invariant "step enc dec tc env" queue_inv
  by unfold_locales (rule step_queue_inv)

interpretation safety: kept_invariant "step enc dec tc env" "\<lambda>s. queue_inv s \<and> safe dec env tips s"
  by unfold_locales (blast intro: step_queue_inv step_safe)

lemma reachable_queue_inv:
  "reachable enc dec tc env s0 s \<Longrightarrow> queue_inv s0 \<Longrightarrow> queue_inv s"
  unfolding reachable_rtranclp by (rule q.always)

lemma reachable_safe:
  "reachable enc dec tc env s0 s \<Longrightarrow> queue_inv s0 \<Longrightarrow> safe dec env tips s0 \<Longrightarrow> safe dec env tips s"
  unfolding reachable_rtranclp using safety.always [of enc dec tc env s0 s] by blast

lemmas started = reachable_queue_inv [OF _ initial_inv]

lemma total_finished:
  "total finished s = total dropped_stale s + total tx_build_failed s + total tx_too_large s +
     total dropped_account_locks s + total jito_send_failed s + total jito_sent s"
  by (simp add: total_def finished_def [abs_def] sum_list_addf algebra_simps)

subsection \<open>One worker's run\<close>

lemma worker_acquire_Some:
  "ps_sem (bt_pipe b) \<noteq> 0 \<Longrightarrow>
   worker_acquire b = Some (map_pipe (\<lambda>p. p\<lparr>ps_sem := ps_sem p - 1\<rparr>) b)"
  by (simp add: worker_acquire_def)

text \<open>A transaction that is dropped for its size has used up the slot its item was granted.\<close>

lemma dropped_keeps_slot:
  assumes "worker_decide mx now now' item b = (b1, Proceed False)"
    and "worker_build env tip item b1 = (b2, r)"
  shows "timestamps (bt_limiter b2) = recent now' (timestamps (bt_limiter b)) @ [now']"
proof -
  from assms(1) have "try_acquire now' (bt_limiter b) = (True, bt_limiter b1)"
    by (auto simp: worker_decide_def Let_def split: if_splits prod.splits)
  then have "timestamps (bt_limiter b1) = recent now' (timestamps (bt_limiter b)) @ [now']"
    by (auto simp: try_acquire_def Let_def split: if_splits dest: arg_cong [where f = timestamps])
  moreover have "bt_limiter b2 = bt_limiter b1"
    using assms(2)
    by (auto simp: worker_build_def Let_def drop_with_def split: prod.splits outcome.splits if_splits option.splits)
  ultimately show ?thesis by simp
qed

subsection \<open>Properties\<close>

definition sample_env :: calc_env where
  "sample_env = \<lparr>ce_sdk = sample_sdk, ce_rpc = sample_rpc, ce_payer = [9], ce_cu_limits = [],
     ce_bytes = (\<lambda>_. Some [1]), ce_rest = sample_rest, ce_grpc = None, ce_queue_max_age_ms = 1000\<rparr>"

definition sample_start :: machine where
  "sample_start = initial 1 (start_bot 5 None (jito_tip_pubkeys (sdk_parse sample_sdk)) [] new_store)"

text \<open>A run of one worker: a pair is scanned, its request answered, the item queued.\<close>

lemma sample_queued:
  "\<exists>s item. reachable plain_enc no_dec serving_config sample_env sample_start s \<and>
     ps_lifo (bt_pipe (mc_bot s)) = [item] \<and> mc_workers s = [Waiting] \<and>
     ri_swap_ixs item = sample_swap ''d'' \<and> ri_arrived_at item = 5 \<and>
     bt_limiter (mc_bot s) = new_limiter 5 \<and> ac_inner (bt_alts (mc_bot s)) = [] \<and>
     (\<exists>sig. lookup_route (ps_store (bt_pipe (mc_bot s))) sig \<noteq> None)"
proof -
  have start: "bt_pipe (mc_bot sample_start) = sample_state" "mc_workers sample_start = [Waiting]"
    "mc_jobs sample_start = []" "bt_limiter (mc_bot sample_start) = new_limiter 5"
    "ac_inner (bt_alts (mc_bot sample_start)) = []"
    by (simp_all add: sample_start_def initial_def start_bot_def sample_state_def new_alt_cache_def)
  obtain p job where scan: "scan_pair plain_enc no_dec serving_config 0 sample_pair
      (bt_pipe (mc_bot sample_start)) = Ok (p, Some job)"
    using sample_requested start by auto
  let ?s1 = "sample_start\<lparr>mc_bot := (mc_bot sample_start)\<lparr>bt_pipe := p\<rparr>,
    mc_jobs := (case Some job of None \<Rightarrow> mc_jobs sample_start | Some j \<Rightarrow> j # mc_jobs sample_start)\<rparr>"
  let ?q = "finish_swap_job no_dec job (Ok (sample_swap ''d'')) 7 5"
  let ?s2 = "?s1\<lparr>mc_bot := map_pipe ?q (mc_bot ?s1), mc_jobs := [] @ []\<rparr>"
  have "step plain_enc no_dec serving_config sample_env sample_start ?s1"
    using scan by (rule step.scan)
  moreover have "step plain_enc no_dec serving_config sample_env ?s1 ?s2"
    by (rule step.finish) (simp_all add: start)
  ultimately have "reachable plain_enc no_dec serving_config sample_env sample_start ?s2"
    by (blast intro: reachable.intros)
  moreover have "pair_requested serving_config sample_pair job sample_state p"
    using scan_pair_Ok [OF scan] by (simp add: start)
  then have "ps_lifo p = []" and save: "sj_save_new job"
    by (simp_all add: pair_requested_def sample_state_def serving_config_def)
  then have "\<exists>item. ps_lifo (bt_pipe (mc_bot ?s2)) = [item] \<and> ri_swap_ixs item = sample_swap ''d'' \<and>
      ri_arrived_at item = 5"
    by (simp add: finish_swap_job_def push_to_queue_def Let_def)
  moreover have "lookup_route (ps_store (bt_pipe (mc_bot ?s2))) (sj_sig job) \<noteq> None"
    using save by (simp add: finish_swap_job_def push_to_queue_def Let_def lookup_insert_route)
  ultimately show ?thesis using start by (intro exI [of _ ?s2]) (auto simp del: lookup_record_hops)
qed

lemma sample_acquired:
  "\<exists>s item b. reachable plain_enc no_dec serving_config sample_env sample_start s \<and>
     ps_lifo (bt_pipe (mc_bot s)) = [item] \<and> mc_workers s = [Waiting] \<and>
     ri_swap_ixs item = sample_swap ''d'' \<and> ri_arrived_at item = 5 \<and>
     bt_limiter (mc_bot s) = new_limiter 5 \<and> ac_inner (bt_alts (mc_bot s)) = [] \<and>
     worker_acquire (mc_bot s) = Some b"
proof -
  obtain s item where s: "reachable plain_enc no_dec serving_config sample_env sample_start s"
    and l: "ps_lifo (bt_pipe (mc_bot s)) = [item]" "mc_workers s = [Waiting]"
      "ri_swap_ixs item = sample_swap ''d''" "ri_arrived_at item = 5"
      "bt_limiter (mc_bot s) = new_limiter 5" "ac_inner (bt_alts (mc_bot s)) = []"
    using sample_queued by blast
  have "queue_inv s" using started [OF s [unfolded sample_start_def]] .
  from queue_invD(1) [OF this] l have "ps_sem (bt_pipe (mc_bot s)) \<noteq> 0"
    by (simp add: count_workers_def)
  with s l show ?thesis using worker_acquire_Some by blast
qed

lemma sample_built:
  assumes "ri_swap_ixs item = sample_swap ''d''" and "ac_inner (bt_alts b) = []"
  shows "\<exists>b' tx. worker_build sample_env 3 item b = (b', Built tx)"
proof -
  obtain c tx where "build_arb_transaction sample_sdk sample_rpc 3 (sample_swap ''d'') [9]
      JITO_TIP_LAMPORTS (lookup_cu_limit (ri_hop_count item) []) (bt_blockhash b) (bt_alts b) = (c, Ok tx)"
    and "vt_message tx = V0 \<lparr>vm_account_keys = [[9]], vm_address_table_lookups = []\<rparr>"
    using assms(2)
    by (simp add: build_arb_transaction_def arb_instructions_def sample_sdk_def sample_swap_def
        to_sdk_instruction_def push_new_def alt_get_or_fetch_def sample_rpc_def
        deserialize_alt_addresses_def HEADER_SIZE_def Let_def)
  then show ?thesis using assms(1)
    by (simp add: worker_build_def sample_env_def account_lock_count_def Let_def)
qed

lemma sample_sending:
  "\<exists>s tx. reachable plain_enc no_dec serving_config sample_env sample_start s \<and>
     mc_workers s = [Sending tx False]"
proof -
  let ?step = "step plain_enc no_dec serving_config sample_env"
  obtain s item b where s: "reachable plain_enc no_dec serving_config sample_env sample_start s"
    and l: "ps_lifo (bt_pipe (mc_bot s)) = [item]" "mc_workers s = [Waiting]"
      "ri_swap_ixs item = sample_swap ''d''" "ri_arrived_at item = 5"
      "bt_limiter (mc_bot s) = new_limiter 5" "ac_inner (bt_alts (mc_bot s)) = []"
    and acq: "worker_acquire (mc_bot s) = Some b"
    using sample_acquired by blast
  let ?s1 = "s\<lparr>mc_bot := b, mc_workers := (mc_workers s)[0 := Permit]\<rparr>"
  have 1: "?step s ?s1" using l(2) acq by (intro step.acquire) simp_all
  have b: "ps_lifo (bt_pipe b) = [item]" "bt_limiter b = new_limiter 5" "ac_inner (bt_alts b) = []"
    using acq l by (auto simp: worker_acquire_def split: if_splits)
  then obtain b2 where pop: "worker_pop b = (b2, Some item)"
    and b2: "bt_limiter b2 = new_limiter 5" "ac_inner (bt_alts b2) = []"
    by (simp add: worker_pop_def)
  let ?s2 = "?s1\<lparr>mc_bot := b2, mc_workers := (mc_workers ?s1)[0 :=
      (case Some item of None \<Rightarrow> Waiting | Some item \<Rightarrow> Deciding item)]\<rparr>"
  have 2: "?step ?s1 ?s2" using l(2) pop by (intro step.pop) simp_all
  have "\<exists>b3. worker_decide 1000 5 5 item b2 = (b3, Proceed False) \<and> ac_inner (bt_alts b3) = []"
    using b2 l(4) by (simp add: worker_decide_def age_ms_def try_acquire_def new_limiter_def Let_def recent_def)
  then obtain b3 where dec: "worker_decide 1000 5 5 item b2 = (b3, Proceed False)"
    and b3: "ac_inner (bt_alts b3) = []" by blast
  let ?s3 = "?s2\<lparr>mc_bot := b3, mc_workers := (mc_workers ?s2)[0 :=
      (case Proceed False of Discard \<Rightarrow> Waiting | Proceed g \<Rightarrow> Building item g | Requeued \<Rightarrow> Sleeping)]\<rparr>"
  have 3: "?step ?s2 ?s3"
    using l(2) dec by (intro step.decide [where now = 5 and now' = 5]) (simp_all add: sample_env_def)
  obtain b4 tx where bld: "worker_build sample_env 3 item b3 = (b4, Built tx)"
    using sample_built [OF l(3) b3] by blast
  let ?s4 = "?s3\<lparr>mc_bot := b4, mc_workers := (mc_workers ?s3)[0 :=
      (case Built tx of Built tx \<Rightarrow> Sending tx False | _ \<Rightarrow> Waiting)]\<rparr>"
  have 4: "?step ?s3 ?s4"
    using l(2) bld by (intro step.build [where tip = 3 and item = item]) simp_all
  have "mc_workers ?s4 = [Sending tx False]" using l(2) by simp
  with reach_step [OF reach_step [OF reach_step [OF reach_step [OF s 1] 2] 3] 4] show ?thesis by blast
qed



text \<open>C3: No opportunity is lost or counted twice: in every reachable state, adding up all
  reported windows and the present counters, the items ever queued are those on the stack,
  those a worker is working on, and those counted as sent or under one reason for dropping;
  and in every window each dropped opportunity is counted under one reason.\<close>

theorem every_item_accounted:
  assumes "reachable enc dec tc env (initial n (start_bot rate grpc_rate tips h st)) s"
  shows "total queue_in s = of_nat (length (ps_lifo (bt_pipe (mc_bot s))) + count_workers holds_item s) +
      total dropped_stale s + total tx_build_failed s + total tx_too_large s +
      total dropped_account_locks s + total jito_send_failed s + total jito_sent s \<and>
    counters_ok (ps_metrics (bt_pipe (mc_bot s))) \<and> (\<forall>w \<in> set (mc_windows s). counters_ok w)"
  using queue_invD(3-5) [OF started [OF assms]]
  by (simp add: total_finished add.assoc)

theorem every_item_accounted_witness:
  "\<exists>s. reachable plain_enc no_dec serving_config sample_env sample_start s \<and>
     length (ps_lifo (bt_pipe (mc_bot s))) = 1 \<and> counters_ok (ps_metrics (bt_pipe (mc_bot s)))"
proof -
  obtain s item where s: "reachable plain_enc no_dec serving_config sample_env sample_start s"
    and l: "ps_lifo (bt_pipe (mc_bot s)) = [item]"
    using sample_queued by blast
  from every_item_accounted [OF s [unfolded sample_start_def]] s l show ?thesis by auto
qed

text \<open>C5: Whatever the lookup tables, the routing engine and the compiler return, a transaction is
  only ever sent when it locks at most 64 accounts and serializes to at most 1232 bytes; and
  no lookup table in the cache holds a tip account.\<close>

theorem only_small_transactions_sent:
  assumes "reachable enc dec tc env (initial n (start_bot rate grpc_rate tips h st)) s"
    and "store_inv dec st" and "Sending tx g \<in> set (mc_workers s)"
  shows "account_lock_count tx \<le> 64 \<and> (\<exists>bs. ce_bytes env tx = Some bs \<and> length bs \<le> 1232) \<and>
    cache_clean tips (bt_alts (mc_bot s))"
proof -
  have "safe dec env tips s"
    using assms(1) initial_inv initial_safe [OF assms(2)] by (rule reachable_safe)
  with assms(3) show ?thesis by (auto simp: safe_def)
qed

theorem only_small_transactions_sent_witness:
  "\<exists>s tx. reachable plain_enc no_dec serving_config sample_env sample_start s \<and>
     mc_workers s = [Sending tx False] \<and> account_lock_count tx \<le> 64"
proof -
  obtain s tx where s: "reachable plain_enc no_dec serving_config sample_env sample_start s"
    and w: "mc_workers s = [Sending tx False]" using sample_sending by blast
  have "Sending tx False \<in> set (mc_workers s)" using w by simp
  with s w only_small_transactions_sent [OF s [unfolded sample_start_def]] show ?thesis by auto
qed



text \<open>C17: An item that gets no slot goes back on top of the stack, so it is the next one popped,
  with its arrival time unchanged: once it is older than the limit it is discarded whatever
  the limiters say, so no item is requeued for ever.\<close>

theorem requeued_item_comes_back:
  assumes "worker_decide mx now now' item b = (b1, Requeued)"
  shows "\<exists>b2 item'. worker_acquire b1 = Some b2 \<and> snd (worker_pop b2) = Some item' \<and>
    ri_swap_ixs item' = ri_swap_ixs item \<and> ri_arrived_at item' = ri_arrived_at item \<and>
    ri_waited_for_slot item' \<and> age_ms now (ri_arrived_at item) \<le> mx \<and>
    (\<forall>t t' b3. age_ms t (ri_arrived_at item') > mx \<longrightarrow> snd (worker_decide mx t t' item' b3) = Discard)"
proof -
  from assms have fresh: "age_ms now (ri_arrived_at item) \<le> mx"
    by (auto simp: worker_decide_def split: if_splits)
  from assms obtain b0 where b1: "b1 = requeue item b0"
    by (auto simp: worker_decide_def Let_def split: if_splits prod.splits)
  let ?b2 = "map_pipe (\<lambda>p. p\<lparr>ps_sem := ps_sem p - 1\<rparr>) b1"
  have "worker_acquire b1 = Some ?b2" by (simp add: worker_acquire_def b1)
  moreover have "snd (worker_pop ?b2) = Some (item\<lparr>ri_waited_for_slot := True\<rparr>)"
    by (simp add: worker_pop_def b1)
  moreover have "snd (worker_decide mx t t' (item\<lparr>ri_waited_for_slot := True\<rparr>) b3) = Discard"
    if "age_ms t (ri_arrived_at item) > mx" for t t' b3
    using that by (simp add: worker_decide_def)
  ultimately show ?thesis using fresh
    by (intro exI [of _ ?b2] exI [of _ "item\<lparr>ri_waited_for_slot := True\<rparr>"] conjI) simp_all
qed

theorem requeued_item_comes_back_witness:
  "\<exists>b1 b2. worker_decide 1000 9 9 \<lparr>ri_swap_ixs = sample_swap ''d'', ri_hop_count = 2,
       ri_arrived_at = 5, ri_waited_for_slot = False\<rparr>
       ((mc_bot sample_start)\<lparr>bt_limiter := new_limiter 0\<rparr>) = (b1, Requeued) \<and>
     worker_acquire b1 = Some b2 \<and> snd (worker_pop b2) \<noteq> None"
proof -
  have "\<exists>b1. worker_decide 1000 9 9 \<lparr>ri_swap_ixs = sample_swap ''d'', ri_hop_count = 2,
       ri_arrived_at = 5, ri_waited_for_slot = False\<rparr>
       ((mc_bot sample_start)\<lparr>bt_limiter := new_limiter 0\<rparr>) = (b1, Requeued)"
    by (simp add: worker_decide_def age_ms_def try_acquire_def new_limiter_def try_grpc_def
        sample_start_def initial_def start_bot_def Let_def recent_def)
  then show ?thesis using requeued_item_comes_back by fastforce
qed


end
