(* ===== verification/Simulation.thy ===== *)
theory Simulation
  imports Transactions BotConfig BotMetrics "HOL-Library.List_Lexorder"
begin

text \<open>
  The simulation gate of \<open>src/src/litesvm_sim.rs\<close>: the accounts a transaction touches, their
  injection into a virtual machine, the balance test on its answer, and the round-robin pool.
  The machine (LiteSVM) and the re-encoding of a transaction for it are arguments: its methods
  are the fields of \<open>vm_ops\<close>.
\<close>

subsection \<open>The machine\<close>

datatype sim_result = Simulated "(pubkey \<times> account) list" u64 | SimFailed u64

text \<open>\<open>sv_set_account\<close> and \<open>sv_add_program\<close> also say whether they succeeded.\<close>

record ('s, 't) vm_ops =
  sv_new :: 's
  sv_warp :: "u64 \<Rightarrow> 's \<Rightarrow> 's"
  sv_add_program :: "pubkey \<Rightarrow> string \<Rightarrow> 's \<Rightarrow> bool \<times> 's"
  sv_set_account :: "pubkey \<Rightarrow> account \<Rightarrow> 's \<Rightarrow> bool \<times> 's"
  sv_get_account :: "pubkey \<Rightarrow> 's \<Rightarrow> account option"
  sv_simulate :: "'t \<Rightarrow> 's \<Rightarrow> sim_result"

record sim_outcome =
  so_compute_units :: u64
  so_wsol_after :: u64

datatype sim_error =
    BadProgramId string | TxConversion | Unprofitable u64 u64 | Reverted
  | BadAltPubkey string | AltFetchForSim fetch_error

record 's simulator =
  si_svm :: 's
  si_wsol_ata :: pubkey
  si_fail_closed :: bool

subsection \<open>Construction\<close>

text \<open>The loop over the registry: the machine, and the numbers of programs loaded and missing.\<close>

fun load_programs ::
  "('s, 't) vm_ops \<Rightarrow> parser \<Rightarrow> (string \<Rightarrow> bool) \<Rightarrow> string \<Rightarrow> (string \<times> string) list \<Rightarrow>
   's \<times> nat \<times> nat \<Rightarrow> (sim_error, 's \<times> nat \<times> nat) outcome" where
  "load_programs ops parse file_exists so_dir [] st = Ok st"
| "load_programs ops parse file_exists so_dir ((pid_str, fname) # ps) (svm, loaded, missing) =
     (if fname = [] then load_programs ops parse file_exists so_dir ps (svm, loaded, missing)
      else
        let path = trim_end_matches CHR ''/'' so_dir @ ''/'' @ fname
        in if \<not> file_exists path
           then load_programs ops parse file_exists so_dir ps (svm, loaded, missing + 1)
           else case parse pid_str of
             None \<Rightarrow> Err (BadProgramId pid_str)
           | Some pid \<Rightarrow>
               (case sv_add_program ops pid path svm of
                  (True, svm) \<Rightarrow> load_programs ops parse file_exists so_dir ps (svm, loaded + 1, missing)
                | (False, svm) \<Rightarrow> load_programs ops parse file_exists so_dir ps (svm, loaded, missing + 1)))"

definition new_simulator ::
  "('s, 't) vm_ops \<Rightarrow> parser \<Rightarrow> (string \<Rightarrow> bool) \<Rightarrow> string \<Rightarrow> pubkey \<Rightarrow> bool \<Rightarrow> u64 \<Rightarrow>
   (sim_error, 's simulator) outcome" where
  "new_simulator ops parse file_exists so_dir wsol_ata fail_closed current_slot =
     bind_outcome
       (load_programs ops parse file_exists so_dir PROGRAMS (sv_warp ops current_slot (sv_new ops), 0, 0))
       (\<lambda>(svm, loaded, missing).
          Ok \<lparr>si_svm = svm, si_wsol_ata = wsol_ata, si_fail_closed = fail_closed\<rparr>)"

subsection \<open>Accounts of a transaction\<close>

definition parse_token_amount :: "bytes \<Rightarrow> u64 option" where
  "parse_token_amount data =
     (if length data < 72 then None else Some (of_le_bytes (take 8 (drop 64 data))))"

definition parse_wsol_amount :: "('s, 't) vm_ops \<Rightarrow> 's \<Rightarrow> pubkey \<Rightarrow> u64" where
  "parse_wsol_amount ops svm wsol_ata =
     (case Option.bind (sv_get_account ops wsol_ata svm) (\<lambda>a. parse_token_amount (acc_data a)) of
        Some v \<Rightarrow> v | None \<Rightarrow> 0)"

definition static_account_keys :: "versioned_message \<Rightarrow> pubkey list" where
  "static_account_keys msg = (case msg of V0 m \<Rightarrow> vm_account_keys m | Legacy keys \<Rightarrow> keys)"

definition address_at :: "pubkey list \<Rightarrow> u8 \<Rightarrow> pubkey option" where
  "address_at addresses idx =
     (if unat idx < length addresses then Some (addresses ! unat idx) else None)"

definition lookup_addresses :: "lookup_table list \<Rightarrow> table_lookup \<Rightarrow> pubkey list" where
  "lookup_addresses alts lookup =
     (case List.find (\<lambda>a. alt_key a = tl_account_key lookup) alts of
        None \<Rightarrow> []
      | Some alt \<Rightarrow>
          List.map_filter (address_at (alt_addresses alt)) (tl_writable_indexes lookup) @
          List.map_filter (address_at (alt_addresses alt)) (tl_readonly_indexes lookup))"

text \<open>\<open>sort_unstable\<close> and \<open>dedup\<close>; public keys are ordered as byte strings.\<close>

definition sort_dedup :: "pubkey list \<Rightarrow> pubkey list" where
  "sort_dedup pks = remdups_adj (sort pks)"

definition collect_tx_accounts :: "versioned_transaction \<Rightarrow> lookup_table list \<Rightarrow> pubkey list" where
  "collect_tx_accounts tx alts =
     sort_dedup
       (static_account_keys (vt_message tx) @
        (case vt_message tx of
           V0 v0 \<Rightarrow> concat (map (lookup_addresses alts) (vm_address_table_lookups v0))
         | Legacy _ \<Rightarrow> []))"

subsection \<open>One simulation\<close>

definition fetch_missing :: "rpc \<Rightarrow> pubkey list \<Rightarrow> account_cache \<Rightarrow> account_cache" where
  "fetch_missing rpc accounts cache =
     fold (\<lambda>pk c. if cache_get c pk = None then fst (cache_get_or_fetch rpc pk c) else c) accounts cache"

definition inject_alts ::
  "('s, 't) vm_ops \<Rightarrow> account_cache \<Rightarrow> lookup_table list \<Rightarrow> 's \<Rightarrow> 's" where
  "inject_alts ops cache alts svm =
     fold (\<lambda>alt svm. case cache_get cache (alt_key alt) of
             Some raw \<Rightarrow> snd (sv_set_account ops (alt_key alt) raw svm)
           | None \<Rightarrow> svm)
       alts svm"

text \<open>The machine, and the numbers of accounts injected and missing.\<close>

fun inject_account ::
  "('s, 't) vm_ops \<Rightarrow> account_cache \<Rightarrow> pubkey \<Rightarrow> 's \<times> nat \<times> nat \<Rightarrow> 's \<times> nat \<times> nat" where
  "inject_account ops cache pk (svm, injected, missing_cnt) =
     (case cache_get cache pk of
        Some acct \<Rightarrow>
          if acc_executable acct then (svm, injected, missing_cnt)
          else (case sv_set_account ops pk acct svm of
                  (ok, svm) \<Rightarrow> if ok then (svm, injected + 1, missing_cnt) else (svm, injected, missing_cnt))
      | None \<Rightarrow> (svm, injected, missing_cnt + 1))"

definition inject_accounts ::
  "('s, 't) vm_ops \<Rightarrow> account_cache \<Rightarrow> pubkey list \<Rightarrow> 's \<Rightarrow> 's \<times> nat \<times> nat" where
  "inject_accounts ops cache accounts svm = fold (inject_account ops cache) accounts (svm, 0, 0)"

definition judge_simulation ::
  "pubkey \<Rightarrow> bool \<Rightarrow> u64 \<Rightarrow> u64 \<Rightarrow> sim_result \<Rightarrow> metrics \<Rightarrow> metrics \<times> (sim_error, sim_outcome) outcome" where
  "judge_simulation wsol_ata fail_closed wsol_before min_acceptable_out result m =
     (case result of
        Simulated post_accounts cu \<Rightarrow>
          (let wsol_after =
             (case Option.bind (List.find (\<lambda>(addr, _). addr = wsol_ata) post_accounts)
                     (\<lambda>(_, acc). parse_token_amount (acc_data acc)) of
                Some v \<Rightarrow> v | None \<Rightarrow> wsol_before)
           in if wsol_after < min_acceptable_out
              then (m\<lparr>tx_dropped := tx_dropped m + 1\<rparr>, Err (Unprofitable wsol_after min_acceptable_out))
              else (m, Ok \<lparr>so_compute_units = cu, so_wsol_after = wsol_after\<rparr>))
      | SimFailed cu \<Rightarrow>
          (m, if fail_closed then Err Reverted
              else Ok \<lparr>so_compute_units = cu, so_wsol_after = 0\<rparr>))"

text \<open>The machine just before the transaction runs.\<close>

definition prepare_vm ::
  "('s, 't) vm_ops \<Rightarrow> account_cache \<Rightarrow> lookup_table list \<Rightarrow> pubkey list \<Rightarrow> u64 \<Rightarrow> 's \<Rightarrow> 's" where
  "prepare_vm ops cache alts accounts live_slot svm =
     fst (inject_accounts ops cache accounts (inject_alts ops cache alts (sv_warp ops live_slot svm)))"

definition simulate ::
  "('s, 't) vm_ops \<Rightarrow> (versioned_transaction \<Rightarrow> 't option) \<Rightarrow> rpc \<Rightarrow> versioned_transaction \<Rightarrow>
   lookup_table list \<Rightarrow> u64 \<Rightarrow> 's simulator \<Rightarrow> account_cache \<Rightarrow> metrics \<Rightarrow>
   's simulator \<times> account_cache \<times> metrics \<times> (sim_error, sim_outcome) outcome" where
  "simulate ops to_litesvm_tx rpc tx alts min_acceptable_out sim cache m =
     (let accounts = collect_tx_accounts tx alts;
          cache = fetch_missing rpc accounts cache;
          svm = prepare_vm ops cache alts accounts (cc_stream_slot cache) (si_svm sim);
          sim = sim\<lparr>si_svm := svm\<rparr>;
          wsol_before = parse_wsol_amount ops svm (si_wsol_ata sim)
      in case to_litesvm_tx tx of
           None \<Rightarrow> (sim, cache, m, Err TxConversion)
         | Some litesvm_tx \<Rightarrow>
             (case judge_simulation (si_wsol_ata sim) (si_fail_closed sim) wsol_before min_acceptable_out
                     (sv_simulate ops litesvm_tx svm) m of
                (m, r) \<Rightarrow> (sim, cache, m, r)))"

subsection \<open>The pool\<close>

record 's simulator_pool =
  po_sims :: "'s simulator list"
  po_next :: usize

definition new_pool ::
  "('s, 't) vm_ops \<Rightarrow> parser \<Rightarrow> (string \<Rightarrow> bool) \<Rightarrow> nat \<Rightarrow> string \<Rightarrow> pubkey \<Rightarrow> bool \<Rightarrow> u64 \<Rightarrow>
   (sim_error, 's simulator_pool) outcome" where
  "new_pool ops parse file_exists workers so_dir wsol_ata fail_closed current_slot =
     bind_outcome
       (traverse (\<lambda>_. new_simulator ops parse file_exists so_dir wsol_ata fail_closed current_slot)
          [0..<max workers 1])
       (\<lambda>sims. Ok \<lparr>po_sims = sims, po_next = 0\<rparr>)"

definition pool_acquire :: "'s simulator_pool \<Rightarrow> 's simulator_pool \<times> 's simulator" where
  "pool_acquire p =
     (p\<lparr>po_next := po_next p + 1\<rparr>, po_sims p ! (unat (po_next p) mod length (po_sims p)))"

fun resolve_alts ::
  "parser \<Rightarrow> rpc \<Rightarrow> string list \<Rightarrow> alt_cache \<Rightarrow> alt_cache \<times> (sim_error, lookup_table list) outcome" where
  "resolve_alts parse rpc [] c = (c, Ok [])"
| "resolve_alts parse rpc (s # ss) c =
     (case parse s of
        None \<Rightarrow> (c, Err (BadAltPubkey s))
      | Some pk \<Rightarrow>
          (case alt_get_or_fetch rpc pk c of
             (c, Ok alt) \<Rightarrow>
               (case resolve_alts parse rpc ss c of
                  (c, r) \<Rightarrow> (c, bind_outcome r (\<lambda>alts. Ok (alt # alts))))
           | (c, Err e) \<Rightarrow> (c, Err (AltFetchForSim e))
           | (c, Panic) \<Rightarrow> (c, Panic)))"

subsection \<open>Collected accounts\<close>

lemma distinct_sort_dedup: "sorted xs \<Longrightarrow> distinct (remdups_adj xs)" for xs :: "'a::linorder list"
  by (induction xs rule: remdups_adj.induct) (auto simp: less_le)

lemma sort_dedup_simps [simp]:
  "set (sort_dedup pks) = set pks" "distinct (sort_dedup pks)" "sorted (sort_dedup pks)"
  "length (sort_dedup pks) \<le> length pks"
  using remdups_adj_length [of "sort pks"]
  by (simp_all add: sort_dedup_def distinct_sort_dedup sorted_remdups_adj)

lemma length_map_filter_le: "length (List.map_filter f xs) \<le> length xs"
  by (induction xs) (auto simp: map_filter_simps split: option.split)

lemma length_lookup_addresses:
  "length (lookup_addresses alts l) \<le> length (tl_writable_indexes l) + length (tl_readonly_indexes l)"
  by (simp add: lookup_addresses_def length_map_filter_le add_mono split: option.split)

lemma length_lookups:
  "length (concat (map (lookup_addresses alts) ls)) \<le>
     sum_list (map (\<lambda>l. length (tl_writable_indexes l) + length (tl_readonly_indexes l)) ls)"
proof (induction ls)
  case (Cons l ls)
  then show ?case using length_lookup_addresses [of alts l] by simp
qed simp

subsection \<open>Injection\<close>

text \<open>The lazy fetches are a prefetch, so the cache's contract applies.\<close>

lemma fetch_missing_is_prefetch: "fetch_missing rpc accounts cache = prefetch rpc accounts cache"
proof -
  have "(if cache_get c pk = None then fst (cache_get_or_fetch rpc pk c) else c) =
      fst (cache_get_or_fetch rpc pk c)" for pk c
    by (simp add: cache_get_or_fetch_def split: option.split)
  then show ?thesis by (simp add: fetch_missing_def prefetch_def)
qed

text \<open>What the code relies on: a successful \<open>set_account\<close> replaces that account and no other, a
  failed one replaces none.\<close>

definition sets_accounts :: "('s, 't) vm_ops \<Rightarrow> bool" where
  "sets_accounts ops \<longleftrightarrow>
     (\<forall>pk a svm pk'. sv_get_account ops pk' (snd (sv_set_account ops pk a svm)) =
        (if fst (sv_set_account ops pk a svm) \<and> pk' = pk then Some a else sv_get_account ops pk' svm))"

definition accepts_accounts :: "('s, 't) vm_ops \<Rightarrow> account_cache \<Rightarrow> bool" where
  "accepts_accounts ops cache \<longleftrightarrow>
     (\<forall>pk a svm. cache_get cache pk = Some a \<longrightarrow> \<not> acc_executable a \<longrightarrow> fst (sv_set_account ops pk a svm))"

lemma inject_account_get:
  assumes "sets_accounts ops"
  shows "sv_get_account ops pk (fst (inject_account ops cache pk' st)) =
    (case cache_get cache pk' of
       Some a \<Rightarrow> if \<not> acc_executable a \<and> fst (sv_set_account ops pk' a (fst st)) \<and> pk = pk' then Some a
                 else sv_get_account ops pk (fst st)
     | None \<Rightarrow> sv_get_account ops pk (fst st))"
  using assms [unfolded sets_accounts_def]
  by (cases st) (simp add: case_prod_beta split: option.split)

lemma inject_others:
  assumes "sets_accounts ops"
  shows "pk \<notin> set accounts \<Longrightarrow>
    sv_get_account ops pk (fst (fold (inject_account ops cache) accounts st)) =
    sv_get_account ops pk (fst st)"
  by (induction accounts arbitrary: st)
    (auto simp: inject_account_get [OF assms] simp del: inject_account.simps split: option.split)

lemma inject_gets:
  assumes "sets_accounts ops" and "accepts_accounts ops cache" and "distinct accounts"
    and "pk \<in> set accounts" and "cache_get cache pk = Some a" and "\<not> acc_executable a"
  shows "sv_get_account ops pk (fst (inject_accounts ops cache accounts svm)) = Some a"
proof -
  have "sv_get_account ops pk (fst (fold (inject_account ops cache) accounts st)) = Some a" for st
    using assms(3,4)
  proof (induction accounts arbitrary: st)
    case (Cons b accounts)
    show ?case
    proof (cases "b = pk")
      case True
      with Cons.prems assms(2,5,6) show ?thesis
        by (simp add: inject_others [OF assms(1)] inject_account_get [OF assms(1)] accepts_accounts_def
            del: inject_account.simps)
    next
      case False
      with Cons show ?thesis by simp
    qed
  qed simp
  then show ?thesis by (simp add: inject_accounts_def)
qed

subsection \<open>The pool\<close>

lemma load_programs_total:
  assumes "\<And>pid f. (pid, f) \<in> set ps \<Longrightarrow> parse pid \<noteq> None"
  shows "\<exists>svm l m. load_programs ops parse ex so_dir ps (s0, l0, m0) = Ok (svm, l, m) \<and>
    l + m = l0 + m0 + length (filter (\<lambda>(_, f). f \<noteq> []) ps)"
  using assms
proof (induction ps arbitrary: s0 l0 m0)
  case (Cons p ps)
  obtain pid f where p: "p = (pid, f)" by fastforce
  have IH: "\<exists>svm l m. load_programs ops parse ex so_dir ps (s0, l0, m0) = Ok (svm, l, m) \<and>
      l + m = l0 + m0 + length (filter (\<lambda>(_, f). f \<noteq> []) ps)" for s0 l0 m0
    using Cons.prems by (intro Cons.IH) auto
  obtain pk where "parse pid = Some pk" using Cons.prems p by fastforce
  then show ?case
    using IH [of s0 l0 m0] IH [of s0 l0 "m0 + 1"] IH [of _ "l0 + 1" m0] IH [of _ l0 "m0 + 1"]
    by (auto simp: p Let_def split: prod.split bool.split)
qed simp

fun acquired :: "nat \<Rightarrow> 's simulator_pool \<Rightarrow> 's simulator list" where
  "acquired 0 p = []"
| "acquired (Suc n) p = (case pool_acquire p of (p', sim) \<Rightarrow> sim # acquired n p')"

lemma acquired_map:
  "unat (po_next p) + n \<le> 2 ^ 64 \<Longrightarrow>
   acquired n p = map (\<lambda>k. po_sims p ! ((unat (po_next p) + k) mod length (po_sims p))) [0..<n]"
proof (induction n arbitrary: p)
  case (Suc n)
  show ?case
  proof (cases n)
    case 0
    then show ?thesis by (simp add: pool_acquire_def)
  next
    case (Suc k)
    then have "unat (po_next p) + 1 < 2 ^ 64" using Suc.prems by simp
    then have nx: "unat (po_next p + 1) = unat (po_next p) + 1" by (simp add: unat_word_ariths)
    let ?p = "p\<lparr>po_next := po_next p + 1\<rparr>"
    have "acquired n ?p = map (\<lambda>k. po_sims p ! ((unat (po_next p) + 1 + k) mod length (po_sims p))) [0..<n]"
      using Suc.IH [of ?p] Suc.prems nx by simp
    then show ?thesis
      by (simp add: pool_acquire_def upt_conv_Cons map_Suc_upt [symmetric] del: upt_Suc)
  qed
qed simp

subsection \<open>Properties\<close>


text \<open>C28: A simulation succeeds only when the machine ran the re-encoded transaction on the prepared
  state and left at least the required balance (read from the post-state, or unchanged when
  the token account is not in it), or when it failed on a gate that fails open; it then
  counts no drop.\<close>

theorem simulation_gate:
  assumes "simulate ops conv rpc tx alts min_out sim cache m = (sim', cache', m', Ok out)"
  shows "\<exists>ltx. conv tx = Some ltx \<and> m' = m \<and>
    (case sv_simulate ops ltx (si_svm sim') of
       Simulated post cu \<Rightarrow> min_out \<le> so_wsol_after out \<and> so_compute_units out = cu \<and>
         so_wsol_after out =
           (case Option.bind (List.find (\<lambda>(addr, _). addr = si_wsol_ata sim) post)
                   (\<lambda>(_, acc). parse_token_amount (acc_data acc)) of
              Some v \<Rightarrow> v | None \<Rightarrow> parse_wsol_amount ops (si_svm sim') (si_wsol_ata sim))
     | SimFailed cu \<Rightarrow> \<not> si_fail_closed sim \<and> so_wsol_after out = 0)"
proof -
  obtain ltx where conv: "conv tx = Some ltx"
    using assms by (auto simp: simulate_def Let_def split: option.splits)
  let ?cache = "fetch_missing rpc (collect_tx_accounts tx alts) cache"
  let ?svm = "prepare_vm ops ?cache alts (collect_tx_accounts tx alts) (cc_stream_slot ?cache) (si_svm sim)"
  have svm: "si_svm sim' = ?svm"
    and judged: "judge_simulation (si_wsol_ata sim) (si_fail_closed sim)
       (parse_wsol_amount ops ?svm (si_wsol_ata sim)) min_out (sv_simulate ops ltx ?svm) m = (m', Ok out)"
    using assms conv by (auto simp: simulate_def Let_def split: prod.splits)
  show ?thesis
  proof (cases "sv_simulate ops ltx ?svm")
    case (Simulated post cu)
    with judged conv svm show ?thesis
      by (simp add: judge_simulation_def Let_def not_less split: if_splits) (metis sim_outcome.select_convs)
  next
    case (SimFailed cu)
    with judged conv svm show ?thesis
      by (auto simp: judge_simulation_def split: if_splits)
  qed
qed


definition sample_vm :: "(pubkey \<Rightarrow> account option, unit) vm_ops" where
  "sample_vm = \<lparr>sv_new = (\<lambda>_. None), sv_warp = (\<lambda>_ s. s), sv_add_program = (\<lambda>_ _ s. (True, s)),
     sv_set_account = (\<lambda>pk a s. (True, s(pk \<mapsto> a))), sv_get_account = (\<lambda>pk s. s pk),
     sv_simulate = (\<lambda>_ s. Simulated [([1], \<lparr>acc_lamports = 0, acc_data = replicate 64 0 @ to_le_bytes 12, acc_owner = [],
        acc_executable = False, acc_rent_epoch = 0\<rparr>)] 7)\<rparr>"

definition sample_sim :: "(pubkey \<Rightarrow> account option) simulator" where
  "sample_sim = \<lparr>si_svm = sv_new sample_vm, si_wsol_ata = [1], si_fail_closed = True\<rparr>"

definition sample_vtx :: versioned_transaction where
  "sample_vtx = \<lparr>vt_message = Legacy [[1], [2]], vt_signatures = []\<rparr>"

theorem simulation_gate_witness:
  "\<exists>sim' cache' m' out. simulate sample_vm (\<lambda>_. Some ()) sample_rpc sample_vtx [] 9 sample_sim
      new_account_cache new_metrics = (sim', cache', m', Ok out) \<and> m' = new_metrics"
proof -
  have "parse_token_amount (replicate 64 0 @ to_le_bytes 12) = Some 12"
    by (simp add: parse_token_amount_def)
  then have "\<exists>sim' cache' m' out. simulate sample_vm (\<lambda>_. Some ()) sample_rpc sample_vtx [] 9 sample_sim
      new_account_cache new_metrics = (sim', cache', m', Ok out)"
    by (simp add: simulate_def Let_def judge_simulation_def sample_sim_def) (simp add: sample_vm_def)
  with simulation_gate show ?thesis by blast
qed


text \<open>The pool is fair: until its counter wraps, any run of as many acquisitions as there are
  simulators hands out each simulator once, in rotation from where the counter stands.\<close>

theorem pool_round_robin:
  assumes "unat (po_next p) + length (po_sims p) \<le> 2 ^ 64"
  shows "acquired (length (po_sims p)) p = rotate (unat (po_next p)) (po_sims p)"
  using acquired_map [OF assms]
  by (intro nth_equalityI) (simp_all add: nth_rotate ac_simps)

theorem pool_round_robin_witness:
  "acquired 2 \<lparr>po_sims = [sample_sim, sample_sim\<lparr>si_fail_closed := False\<rparr>], po_next = 3\<rparr> =
     [sample_sim\<lparr>si_fail_closed := False\<rparr>, sample_sim]"
proof -
  let ?p = "\<lparr>po_sims = [sample_sim, sample_sim\<lparr>si_fail_closed := False\<rparr>], po_next = 3\<rparr>"
  have len: "length (po_sims ?p) = 2" by simp
  have "rotate 3 [sample_sim, sample_sim\<lparr>si_fail_closed := False\<rparr>] =
      [sample_sim\<lparr>si_fail_closed := False\<rparr>, sample_sim]"
    by (simp add: numeral_3_eq_3)
  then have rot: "rotate (unat (po_next ?p)) (po_sims ?p) = [sample_sim\<lparr>si_fail_closed := False\<rparr>, sample_sim]"
    by simp
  have "unat (po_next ?p) + length (po_sims ?p) \<le> 2 ^ 64" by simp
  then have "acquired (length (po_sims ?p)) ?p = rotate (unat (po_next ?p)) (po_sims ?p)"
    by (rule pool_round_robin)
  then show ?thesis unfolding len rot .
qed

end
