(* ===== verification/DexAccounts.thy ===== *)
theory DexAccounts
  imports Simulation TemplateDisk
begin

text \<open>
  \<open>src/src/dex_accounts.rs\<close>: the registry of pool accounts, read from one directory of TOML
  files per DEX.  The directory listing, the TOML reader and the base58 parser are arguments; an
  entry that cannot be read, parsed or decoded is skipped.
\<close>

record pool_file =
  pf_name :: "string option"
  pf_market :: "string option"
  pf_vault_a :: "string option"
  pf_vault_b :: "string option"
  pf_mint_a :: "string option"
  pf_mint_b :: "string option"
  pf_extra :: "string list"

record dex_pools =
  dp_all_accounts :: "pubkey list"
  dp_subscribe_accounts :: "pubkey list"

text \<open>A file's name and contents, if readable; a directory entry's name, whether it is a
  directory, and its files, if readable.  The listing is \<open>None\<close> when the path does not exist,
  \<open>Some None\<close> when it cannot be read.\<close>

type_synonym pool_entry = "string \<times> string option"
type_synonym dex_entry = "string \<times> bool \<times> pool_entry list option"
type_synonym dex_listing = "dex_entry list option option"

definition push_account ::
  "parser \<Rightarrow> string option \<times> bool \<Rightarrow> pubkey list \<times> pubkey list \<Rightarrow> pubkey list \<times> pubkey list" where
  "push_account parse = (\<lambda>(s, is_vault) (all, subs).
     (case s of
        None \<Rightarrow> (all, subs)
      | Some s \<Rightarrow>
          (case parse s of
             Some pk \<Rightarrow> (all @ [pk], if is_vault then subs @ [pk] else subs)
           | None \<Rightarrow> (all, subs))))"

definition pool_addresses :: "pool_file \<Rightarrow> (string option \<times> bool) list" where
  "pool_addresses pool =
     [(pf_market pool, False), (pf_vault_a pool, True), (pf_vault_b pool, True),
      (pf_mint_a pool, False), (pf_mint_b pool, False)] @
     map (\<lambda>addr. (Some addr, False)) (pf_extra pool)"

definition pool_of_entry :: "(string \<Rightarrow> pool_file option) \<Rightarrow> pool_entry \<Rightarrow> pool_file option" where
  "pool_of_entry toml = (\<lambda>(fname, content).
     if take 1 fname = ''_'' \<or> extension fname \<noteq> Some ''toml'' then None
     else Option.bind content toml)"

definition add_pool_entry ::
  "parser \<Rightarrow> (string \<Rightarrow> pool_file option) \<Rightarrow> pool_entry \<Rightarrow> pubkey list \<times> pubkey list \<Rightarrow>
   pubkey list \<times> pubkey list" where
  "add_pool_entry parse toml e acc =
     (case pool_of_entry toml e of
        None \<Rightarrow> acc
      | Some pool \<Rightarrow> fold (push_account parse) (pool_addresses pool) acc)"

definition add_dex_entry ::
  "parser \<Rightarrow> (string \<Rightarrow> pool_file option) \<Rightarrow> dex_entry \<Rightarrow> pubkey list \<times> pubkey list \<Rightarrow>
   pubkey list \<times> pubkey list" where
  "add_dex_entry parse toml = (\<lambda>(dex_name, is_dir, pool_entries) acc.
     if \<not> is_dir then acc
     else case pool_entries of
            None \<Rightarrow> acc
          | Some es \<Rightarrow> fold (add_pool_entry parse toml) es acc)"

definition load_dex_pools ::
  "parser \<Rightarrow> (string \<Rightarrow> pool_file option) \<Rightarrow> dex_listing \<Rightarrow> dex_pools" where
  "load_dex_pools parse toml listing =
     (case listing of
        None \<Rightarrow> \<lparr>dp_all_accounts = [], dp_subscribe_accounts = []\<rparr>
      | Some None \<Rightarrow> \<lparr>dp_all_accounts = [], dp_subscribe_accounts = []\<rparr>
      | Some (Some dex_entries) \<Rightarrow>
          (case fold (add_dex_entry parse toml) dex_entries ([], []) of
             (all, subs) \<Rightarrow>
               \<lparr>dp_all_accounts = sort_dedup all, dp_subscribe_accounts = sort_dedup subs\<rparr>))"

subsection \<open>What is collected\<close>

text \<open>The pools of a listing, and the keys of a pool that parse.\<close>

definition listed_pools :: "(string \<Rightarrow> pool_file option) \<Rightarrow> dex_listing \<Rightarrow> pool_file set" where
  "listed_pools toml listing =
     {pool. \<exists>entries dex files e. listing = Some (Some entries) \<and> (dex, True, Some files) \<in> set entries \<and>
        e \<in> set files \<and> pool_of_entry toml e = Some pool}"

definition pool_keys :: "parser \<Rightarrow> pool_file \<Rightarrow> pubkey set" where
  "pool_keys parse pool = {pk. \<exists>s v. (Some s, v) \<in> set (pool_addresses pool) \<and> parse s = Some pk}"

definition vault_keys :: "parser \<Rightarrow> pool_file \<Rightarrow> pubkey set" where
  "vault_keys parse pool =
     {pk. \<exists>s. (pf_vault_a pool = Some s \<or> pf_vault_b pool = Some s) \<and> parse s = Some pk}"

lemma fold_collects:
  assumes "\<And>e acc. set (fst (f e acc)) = set (fst acc) \<union> A e \<and> set (snd (f e acc)) = set (snd acc) \<union> B e"
  shows "set (fst (fold f es acc)) = set (fst acc) \<union> (\<Union>e \<in> set es. A e) \<and>
    set (snd (fold f es acc)) = set (snd acc) \<union> (\<Union>e \<in> set es. B e)"
  by (induction es arbitrary: acc) (auto simp: assms)

lemma set_push_account:
  "set (fst (push_account parse a acc)) = set (fst acc) \<union> {pk. \<exists>s. fst a = Some s \<and> parse s = Some pk} \<and>
   set (snd (push_account parse a acc)) =
     set (snd acc) \<union> {pk. \<exists>s. fst a = Some s \<and> snd a \<and> parse s = Some pk}"
  by (cases acc) (auto simp: push_account_def split: prod.splits option.splits)

lemma set_push_accounts:
  "set (fst (fold (push_account parse) as acc)) =
     set (fst acc) \<union> {pk. \<exists>s v. (Some s, v) \<in> set as \<and> parse s = Some pk} \<and>
   set (snd (fold (push_account parse) as acc)) =
     set (snd acc) \<union> {pk. \<exists>s. (Some s, True) \<in> set as \<and> parse s = Some pk}"
proof -
  have "set (fst (fold (push_account parse) as acc)) =
      set (fst acc) \<union> (\<Union>a \<in> set as. {pk. \<exists>s. fst a = Some s \<and> parse s = Some pk}) \<and>
    set (snd (fold (push_account parse) as acc)) =
      set (snd acc) \<union> (\<Union>a \<in> set as. {pk. \<exists>s. fst a = Some s \<and> snd a \<and> parse s = Some pk})"
    by (rule fold_collects) (rule set_push_account)
  moreover have "(\<Union>a \<in> set as. {pk. \<exists>s. fst a = Some s \<and> parse s = Some pk}) =
      {pk. \<exists>s v. (Some s, v) \<in> set as \<and> parse s = Some pk}"
    "(\<Union>a \<in> set as. {pk. \<exists>s. fst a = Some s \<and> snd a \<and> parse s = Some pk}) =
      {pk. \<exists>s. (Some s, True) \<in> set as \<and> parse s = Some pk}"
    by force+
  ultimately show ?thesis by simp
qed

lemma pool_address_keys:
  "{pk. \<exists>s. (Some s, True) \<in> set (pool_addresses pool) \<and> parse s = Some pk} = vault_keys parse pool"
  by (auto simp: pool_addresses_def vault_keys_def) metis+

lemma set_add_pool_entry:
  "set (fst (add_pool_entry parse toml e acc)) =
     set (fst acc) \<union> (\<Union>pool \<in> set_option (pool_of_entry toml e). pool_keys parse pool) \<and>
   set (snd (add_pool_entry parse toml e acc)) =
     set (snd acc) \<union> (\<Union>pool \<in> set_option (pool_of_entry toml e). vault_keys parse pool)"
  by (simp add: add_pool_entry_def set_push_accounts pool_keys_def pool_address_keys split: option.split)

lemma set_add_dex_entry:
  "set (fst (add_dex_entry parse toml d acc)) = set (fst acc) \<union>
     (\<Union>pool \<in> listed_pools toml (Some (Some [d])). pool_keys parse pool) \<and>
   set (snd (add_dex_entry parse toml d acc)) = set (snd acc) \<union>
     (\<Union>pool \<in> listed_pools toml (Some (Some [d])). vault_keys parse pool)"
proof -
  obtain n isd files where d: "d = (n, isd, files)" by (cases d) auto
  show ?thesis
  proof (cases "isd \<and> files \<noteq> None")
    case True
    then obtain es where "isd" "files = Some es" by auto
    moreover have "set (fst (fold (add_pool_entry parse toml) es acc)) = set (fst acc) \<union>
        (\<Union>e \<in> set es. \<Union>pool \<in> set_option (pool_of_entry toml e). pool_keys parse pool) \<and>
      set (snd (fold (add_pool_entry parse toml) es acc)) = set (snd acc) \<union>
        (\<Union>e \<in> set es. \<Union>pool \<in> set_option (pool_of_entry toml e). vault_keys parse pool)"
      by (rule fold_collects) (rule set_add_pool_entry)
    moreover have "listed_pools toml (Some (Some [(n, True, Some es)])) =
        (\<Union>e \<in> set es. set_option (pool_of_entry toml e))"
      by (auto simp: listed_pools_def)
    ultimately show ?thesis by (simp add: d add_dex_entry_def)
  next
    case False
    then show ?thesis by (auto simp: d add_dex_entry_def listed_pools_def)
  qed
qed

subsection \<open>Properties\<close>


end
