(* ===== verification/Startup.thy ===== *)
theory Startup
  imports PipelineLaws DexAccounts
begin

text \<open>
  \<open>main\<close> and \<open>async_main\<close> of \<open>src/src/main.rs\<close>: how the configuration becomes the bot's threads,
  limiters, caches, workers and simulators.  Reading keys, opening connections and the address
  derivation of token accounts are arguments.
\<close>

subsection \<open>Threads\<close>

definition worker_threads :: "performance_config \<Rightarrow> nat" where
  "worker_threads perf = max (pc_threads perf) 1"

text \<open>The core that the \<open>idx\<close>-th started thread is pinned to, if it is available.\<close>

definition pinned_core :: "nat list \<Rightarrow> nat list \<Rightarrow> usize \<Rightarrow> nat option" where
  "pinned_core cores available idx =
     (if cores = [] then None
      else let target = cores ! (unat idx mod length cores)
           in List.find (\<lambda>c. c = target) available)"

subsection \<open>Shared state\<close>

text \<open>The hop templates are loaded first, then the routes; the counts are those printed.\<close>

definition load_templates ::
  "'t serde \<Rightarrow> 't fs \<Rightarrow> template_cache_config \<Rightarrow> store \<times> (nat \<times> nat) option" where
  "load_templates sd fs tc =
     (if save_new tc \<or> serve_route_enabled tc
      then (case load_from_disk sd fs new_store of
              (g, hops_loaded) \<Rightarrow>
                (case load_routes_from_disk sd fs g of
                   (g, routes_loaded) \<Rightarrow> (g, Some (hops_loaded, routes_loaded))))
      else (new_store, None))"

text \<open>The gRPC client and its own limiter, or neither.\<close>

definition grpc_setup ::
  "(string list \<Rightarrow> string \<Rightarrow> ('e, 'c) outcome) \<Rightarrow> jito_grpc_config \<Rightarrow> 'c option \<times> u32 option" where
  "grpc_setup connect cfg =
     (if gc_enabled cfg
      then (case connect (gc_endpoints cfg) (gc_auth_keypair cfg) of
              Ok client \<Rightarrow> (Some client, Some (gc_max_bundles_per_second cfg))
            | _ \<Rightarrow> (None, None))
      else (None, None))"

definition live_extra :: "pubkey \<Rightarrow> dex_pools \<Rightarrow> pubkey list" where
  "live_extra wsol_ata dex_pools = wsol_ata # dp_subscribe_accounts dex_pools"

definition warm_accounts ::
  "parser \<Rightarrow> (pubkey \<Rightarrow> pubkey \<Rightarrow> pubkey) \<Rightarrow> pubkey \<Rightarrow> pubkey \<Rightarrow> pubkey \<Rightarrow> string list \<Rightarrow> dex_pools \<Rightarrow>
   pubkey list" where
  "warm_accounts parse ata wallet wsol_mint wsol_ata token_mints dex_pools =
     List.map_filter parse token_mints @ [wsol_mint, wsol_ata, wallet] @
     List.map_filter (\<lambda>mint_str. map_option (ata wallet) (parse mint_str)) token_mints @
     dp_all_accounts dex_pools"

definition setup_simulation ::
  "('s, 't) vm_ops \<Rightarrow> parser \<Rightarrow> (string \<Rightarrow> bool) \<Rightarrow> rpc \<Rightarrow> u64 option \<Rightarrow> (pubkey \<Rightarrow> pubkey \<Rightarrow> pubkey) \<Rightarrow>
   (string \<Rightarrow> pool_file option) \<Rightarrow> (string \<Rightarrow> dex_listing) \<Rightarrow> pubkey \<Rightarrow> pubkey \<Rightarrow> string list \<Rightarrow>
   simulation_config \<Rightarrow> (sim_error, (account_cache \<times> 's simulator_pool) option) outcome" where
  "setup_simulation ops parse file_exists rpc slot ata toml read_dex_dir wallet wsol_mint token_mints cfg =
     (if sc_enabled cfg
      then
        let wsol_ata = ata wallet wsol_mint;
            cache = (case slot of Some s \<Rightarrow> seed_slot s new_account_cache | None \<Rightarrow> new_account_cache);
            dex_pools = load_dex_pools parse toml (read_dex_dir (sc_dex_dir cfg));
            cache = prefetch rpc
              (warm_accounts parse ata wallet wsol_mint wsol_ata token_mints dex_pools) cache
        in bind_outcome
             (new_pool ops parse file_exists (sc_workers cfg) (sc_so_dir cfg) wsol_ata
                (sc_fail_closed cfg) (cc_stream_slot cache))
             (\<lambda>pool. Ok (Some (cache, pool)))
      else Ok None)"

definition worker_count :: "performance_config \<Rightarrow> nat" where
  "worker_count perf = max (pc_calc_workers perf) 1"

definition jito_capacity :: "'f jito_config \<Rightarrow> jito_grpc_config \<Rightarrow> u32 option \<Rightarrow> usize" where
  "jito_capacity jito grpc grpc_limiter =
     ucast (jc_max_bundles_per_second jito) +
     (case grpc_limiter of Some _ \<Rightarrow> ucast (gc_max_bundles_per_second grpc) | None \<Rightarrow> 0)"

text \<open>The machine of theory \<open>Pipeline\<close> that \<open>async_main\<close> starts.\<close>

definition start_machine ::
  "'t serde \<Rightarrow> 't fs \<Rightarrow> parser \<Rightarrow> (string list \<Rightarrow> string \<Rightarrow> ('e, 'c) outcome) \<Rightarrow> bytes option \<Rightarrow>
   'f config \<Rightarrow> machine" where
  "start_machine sd fs parse connect latest_blockhash cfg =
     initial (worker_count (cfg_performance cfg))
       (start_bot (jc_max_bundles_per_second (cfg_jito cfg))
          (snd (grpc_setup connect (cfg_jito_grpc cfg)))
          (jito_tip_pubkeys parse) (new_blockhash latest_blockhash)
          (fst (load_templates sd fs (cfg_template_cache cfg))))"

lemma new_simulator_Ok:
  "new_simulator ops parse ex so_dir wsol_ata fail_closed slot = Ok sim \<Longrightarrow>
   si_wsol_ata sim = wsol_ata \<and> si_fail_closed sim = fail_closed"
  by (auto simp: new_simulator_def outcome_simps)

subsection \<open>Properties\<close>

text \<open>With simulation enabled, start-up either fails on a program id or ends with a pool of at
  least one simulator, all built alike, and a cache that holds every account the gate needs
  that the node knows: the wallet, its token accounts, the mints and all pool accounts.\<close>

theorem startup_warms_cache:
  assumes "setup_simulation ops parse ex rpc slot ata toml dir wallet wsol_mint tokens cfg =
      Ok (Some (cache, pool))"
  shows "length (po_sims pool) = max (sc_workers cfg) 1 \<and>
    (\<forall>sim \<in> set (po_sims pool). si_wsol_ata sim = ata wallet wsol_mint \<and>
       si_fail_closed sim = sc_fail_closed cfg) \<and>
    (\<forall>pk \<in> {wallet, wsol_mint, ata wallet wsol_mint} \<union>
         {k. \<exists>t \<in> set tokens. \<exists>mint. parse t = Some mint \<and> (k = mint \<or> k = ata wallet mint)} \<union>
         set (dp_all_accounts (load_dex_pools parse toml (dir (sc_dex_dir cfg)))).
       cache_get cache pk = rpc pk)"
proof -
  let ?pools = "load_dex_pools parse toml (dir (sc_dex_dir cfg))"
  let ?warm = "warm_accounts parse ata wallet wsol_mint (ata wallet wsol_mint) tokens ?pools"
  let ?c = "case slot of Some s \<Rightarrow> seed_slot s new_account_cache | None \<Rightarrow> new_account_cache"
  from assms have cache: "cache = prefetch rpc ?warm ?c"
    and pool: "new_pool ops parse ex (sc_workers cfg) (sc_so_dir cfg) (ata wallet wsol_mint)
      (sc_fail_closed cfg) (cc_stream_slot cache) = Ok pool"
    by (auto simp: setup_simulation_def Let_def outcome_simps split: if_splits)
  have empty: "cache_get ?c pk = None" for pk
    by (simp add: cache_get_def seed_slot_def new_account_cache_def split: option.split)
  have warm: "cache_get cache pk = rpc pk" if "pk \<in> set ?warm" for pk
    using that by (cases "rpc pk") (simp_all add: cache prefetch_is_fetch_all accts.look_fetch_all empty)
  from pool obtain sims where sims: "list_all2 (\<lambda>_ sim. new_simulator ops parse ex (sc_so_dir cfg)
      (ata wallet wsol_mint) (sc_fail_closed cfg) (cc_stream_slot cache) = Ok sim)
      [0..<max (sc_workers cfg) 1] sims" and pool': "po_sims pool = sims"
    by (auto simp: new_pool_def outcome_simps traverse_eq_Ok)
  have "length (po_sims pool) = max (sc_workers cfg) 1"
    using list_all2_lengthD [OF sims] by (simp add: pool')
  moreover have "si_wsol_ata sim = ata wallet wsol_mint \<and> si_fail_closed sim = sc_fail_closed cfg"
    if "sim \<in> set (po_sims pool)" for sim
    using that sims new_simulator_Ok
    by (fastforce simp: pool' list_all2_conv_all_nth in_set_conv_nth)
  moreover have "{wallet, wsol_mint, ata wallet wsol_mint} \<union>
      {k. \<exists>t \<in> set tokens. \<exists>mint. parse t = Some mint \<and> (k = mint \<or> k = ata wallet mint)} \<union>
      set (dp_all_accounts ?pools) \<subseteq> set ?warm"
    by (force simp: warm_accounts_def map_filter_def)
  ultimately show ?thesis using warm by blast
qed

lemma sample_parse: "sdk_parse sample_sdk s \<noteq> None"
  by (simp add: sample_sdk_def)

definition sample_simulation :: simulation_config where
  "sample_simulation = default_simulation_config\<lparr>sc_enabled := True, sc_workers := 1\<rparr>"

theorem startup_warms_cache_witness:
  "\<exists>cache pool. setup_simulation sample_vm (sdk_parse sample_sdk) (\<lambda>_. False) sample_rpc (Some 3)
      (\<lambda>w m. m @ w) (\<lambda>_. None) (\<lambda>_. None) [4] [5] [''M''] sample_simulation = Ok (Some (cache, pool)) \<and>
    length (po_sims pool) = 1 \<and> cache_get cache [5, 4] = sample_rpc [5, 4]"
proof -
  have "\<exists>svm l m. load_programs sample_vm (sdk_parse sample_sdk) (\<lambda>_. False) default_so_dir PROGRAMS
      (sv_warp sample_vm slot (sv_new sample_vm), 0, 0) = Ok (svm, l, m)" for slot
    using load_programs_total [of PROGRAMS "sdk_parse sample_sdk"] by (metis sample_parse)
  then have "\<exists>sim. new_simulator sample_vm (sdk_parse sample_sdk) (\<lambda>_. False) default_so_dir w b slot = Ok sim"
    for w b slot by (force simp: new_simulator_def outcome_simps)
  then have "\<exists>cache pool. setup_simulation sample_vm (sdk_parse sample_sdk) (\<lambda>_. False) sample_rpc (Some 3)
      (\<lambda>w m. m @ w) (\<lambda>_. None) (\<lambda>_. None) [4] [5] [''M''] sample_simulation = Ok (Some (cache, pool))"
    by (simp add: setup_simulation_def sample_simulation_def default_simulation_config_def Let_def
        new_pool_def outcome_simps)
  then obtain cache pool where ok: "setup_simulation sample_vm (sdk_parse sample_sdk) (\<lambda>_. False) sample_rpc
      (Some 3) (\<lambda>w m. m @ w) (\<lambda>_. None) (\<lambda>_. None) [4] [5] [''M''] sample_simulation =
      Ok (Some (cache, pool))" by blast
  from startup_warms_cache [OF ok] ok show ?thesis by (simp add: sample_simulation_def)
qed

end
