(* ===== verification/Desk.thy ===== *)
theory Desk
  imports PipelineLaws
begin

text \<open>
  What the queue and the workers of \<open>src/src/arbitrage.rs\<close> implement, without permits, counters,
  clocks and limiters: a desk where tickets arrive on a stack, a clerk takes the newest one,
  and then puts it back, gives it up, or submits a transaction built from it.  The locale
  \<open>simulation\<close> is the argument for refinement; it is interpreted on the running bot, so that the
  semaphore and the stack together are shown to be one atomic operation.
\<close>

subsection \<open>Refinement\<close>

locale simulation = kept_invariant concrete inv
  for concrete :: "'c \<Rightarrow> 'c \<Rightarrow> bool" and inv :: "'c \<Rightarrow> bool" +
  fixes abstract :: "'a \<Rightarrow> 'a \<Rightarrow> bool" and view :: "'c \<Rightarrow> 'a"
  assumes simulates: "inv s \<Longrightarrow> concrete s s' \<Longrightarrow> view s = view s' \<or> abstract (view s) (view s')"
begin

text \<open>The states whose view is reached by the specification from a given one are kept too.\<close>

sublocale matched: kept_invariant concrete "\<lambda>s. inv s \<and> abstract\<^sup>*\<^sup>* a (view s)" for a
proof
  fix s s'
  assume s: "inv s \<and> abstract\<^sup>*\<^sup>* a (view s)" and move: "concrete s s'"
  then have "view s = view s' \<or> abstract (view s) (view s')" by (elim conjE) (rule simulates)
  with s move show "inv s' \<and> abstract\<^sup>*\<^sup>* a (view s')"
    by (auto intro: keeps rtranclp.rtrancl_into_rtrancl)
qed

lemma run:
  assumes "concrete\<^sup>*\<^sup>* s s'" and "inv s"
  shows "abstract\<^sup>*\<^sup>* (view s) (view s')"
  using matched.always [OF assms(1), of "view s"] assms(2) by simp

lemma abstract_property:
  assumes "kept_invariant abstract P" and "concrete\<^sup>*\<^sup>* s s'" and "inv s" and "P (view s)"
  shows "P (view s')"
  by (rule kept_invariant.always [OF assms(1) run [OF assms(2,3)] assms(4)])

end

subsection \<open>The desk\<close>

text \<open>A ticket is what stays the same while an opportunity waits: its instructions, its number of
  hops and its time of arrival.\<close>

type_synonym ticket = "swap_instructions_response \<times> nat \<times> instant"

datatype clerk = Idle | Working ticket | Submitting versioned_transaction

record desk =
  dk_stack :: "ticket list"
  dk_clerks :: "clerk list"

inductive desk_step :: "(ticket \<Rightarrow> versioned_transaction \<Rightarrow> bool) \<Rightarrow> desk \<Rightarrow> desk \<Rightarrow> bool"
  for makes where
  arrive: "desk_step makes d (d\<lparr>dk_stack := dk_stack d @ [t]\<rparr>)"
| take_newest: "desk_step makes d (d\<lparr>dk_stack := ts, dk_clerks := (dk_clerks d)[i := Working t]\<rparr>)"
    if "i < length (dk_clerks d)" "dk_clerks d ! i = Idle" "dk_stack d = ts @ [t]"
| put_back: "desk_step makes d
      (d\<lparr>dk_stack := dk_stack d @ [t], dk_clerks := (dk_clerks d)[i := Idle]\<rparr>)"
    if "i < length (dk_clerks d)" "dk_clerks d ! i = Working t"
| give_up: "desk_step makes d (d\<lparr>dk_clerks := (dk_clerks d)[i := Idle]\<rparr>)"
    if "i < length (dk_clerks d)" "dk_clerks d ! i = Working t"
| submit: "desk_step makes d (d\<lparr>dk_clerks := (dk_clerks d)[i := Submitting tx]\<rparr>)"
    if "i < length (dk_clerks d)" "dk_clerks d ! i = Working t" "makes t tx"
| conclude: "desk_step makes d (d\<lparr>dk_clerks := (dk_clerks d)[i := Idle]\<rparr>)"
    if "i < length (dk_clerks d)" "dk_clerks d ! i = Submitting tx"

definition empty_desk :: "nat \<Rightarrow> desk" where
  "empty_desk n = \<lparr>dk_stack = [], dk_clerks = replicate n Idle\<rparr>"

subsection \<open>The bot seen as a desk\<close>

definition ticket_of :: "ready_instruction \<Rightarrow> ticket" where
  "ticket_of item = (ri_swap_ixs item, ri_hop_count item, ri_arrived_at item)"

fun clerk_of :: "worker \<Rightarrow> clerk" where
  "clerk_of Waiting = Idle"
| "clerk_of Permit = Idle"
| "clerk_of (Deciding item) = Working (ticket_of item)"
| "clerk_of (Building item g) = Working (ticket_of item)"
| "clerk_of (Sending tx g) = Submitting tx"
| "clerk_of Sleeping = Idle"

definition desk_of :: "machine \<Rightarrow> desk" where
  "desk_of s = \<lparr>dk_stack = map ticket_of (ps_lifo (bt_pipe (mc_bot s))),
                dk_clerks = map clerk_of (mc_workers s)\<rparr>"

text \<open>A transaction that the bot may submit for a ticket: one built from the ticket's
  instructions, under the chain's limits.\<close>

definition made_from :: "calc_env \<Rightarrow> ticket \<Rightarrow> versioned_transaction \<Rightarrow> bool" where
  "made_from env = (\<lambda>(ixs, hop_n, _) tx.
     (\<exists>tip blockhash alts. snd (build_arb_transaction (ce_sdk env) (ce_rpc env) tip ixs (ce_payer env)
        JITO_TIP_LAMPORTS (lookup_cu_limit hop_n (ce_cu_limits env)) blockhash alts) = Ok tx) \<and>
     account_lock_count tx \<le> 64 \<and> (\<exists>bs. ce_bytes env tx = Some bs \<and> length bs \<le> 1232))"

lemma desk_of_worker:
  "desk_of (s\<lparr>mc_bot := b, mc_workers := (mc_workers s)[i := w]\<rparr>) =
     (desk_of s)\<lparr>dk_stack := map ticket_of (ps_lifo (bt_pipe b)),
       dk_clerks := (dk_clerks (desk_of s))[i := clerk_of w]\<rparr>"
  by (simp add: desk_of_def map_update)

lemma desk_of_workers:
  "desk_of (s\<lparr>mc_workers := (mc_workers s)[i := w]\<rparr>) =
     (desk_of s)\<lparr>dk_clerks := (dk_clerks (desk_of s))[i := clerk_of w]\<rparr>"
  by (simp add: desk_of_def map_update)

lemma clerks_of_worker:
  "i < length (mc_workers s) \<Longrightarrow> i < length (dk_clerks (desk_of s)) \<and>
   dk_clerks (desk_of s) ! i = clerk_of (mc_workers s ! i)"
  by (simp add: desk_of_def)

lemma stack_of: "dk_stack (desk_of s) = map ticket_of (ps_lifo (bt_pipe (mc_bot s)))"
  by (simp add: desk_of_def)

lemma clerks_same [simp]: "dk_clerks d ! i = w \<Longrightarrow> d\<lparr>dk_clerks := (dk_clerks d)[i := w]\<rparr> = d"
  by (metis desk.surjective desk.update_convs(2) list_update_id)

lemma stack_same [simp]: "dk_stack d = ts \<Longrightarrow> d\<lparr>dk_stack := ts\<rparr> = d"
  by auto

subsection \<open>How the blocks of the bot move the stack\<close>

lemma worker_decide_lifo:
  assumes "worker_decide mx now now' item b = (b', d)"
  shows "ps_lifo (bt_pipe b') = ps_lifo (bt_pipe b) @
    (if d = Requeued then [item\<lparr>ri_waited_for_slot := True\<rparr>] else [])"
proof (cases "age_ms now (ri_arrived_at item) > mx")
  case True
  then show ?thesis using assms by (auto simp: worker_decide_def)
next
  case False
  obtain rest_ok rl where rest: "try_acquire now' (bt_limiter b) = (rest_ok, rl)" by fastforce
  obtain grpc_ok b2 where grpc: "try_grpc now' (b\<lparr>bt_limiter := rl\<rparr>) = (grpc_ok, b2)" by fastforce
  have "bt_pipe b2 = bt_pipe b" using try_grpc_pipe(1) [OF grpc] by simp
  moreover have "(b', d) = (if rest_ok then (b\<lparr>bt_limiter := rl\<rparr>, Proceed False)
      else if grpc_ok then (b2, Proceed True) else (requeue item b2, Requeued))"
    using assms False rest grpc by (cases rest_ok) (simp_all add: worker_decide_def Let_def)
  ultimately show ?thesis by (auto simp: requeue_def Let_def split: if_splits)
qed

lemma worker_build_facts:
  assumes "worker_build env tip item b = (b', r)"
  shows "ps_lifo (bt_pipe b') = ps_lifo (bt_pipe b)"
    and "r = Built tx \<Longrightarrow> made_from env (ticket_of item) tx"
proof -
  obtain alts res where bld: "build_arb_transaction (ce_sdk env) (ce_rpc env) tip (ri_swap_ixs item)
      (ce_payer env) JITO_TIP_LAMPORTS (lookup_cu_limit (ri_hop_count item) (ce_cu_limits env))
      (bt_blockhash b) (bt_alts b) = (alts, res)" by fastforce
  show "ps_lifo (bt_pipe b') = ps_lifo (bt_pipe b)"
    using assms bld by (cases res) (auto simp: worker_build_def Let_def split: if_splits option.splits)
  assume "r = Built tx"
  with assms bld have made: "res = Ok tx \<and> account_lock_count tx \<le> 64 \<and>
      (\<exists>bs. ce_bytes env tx = Some bs \<and> length bs \<le> 1232)"
    by (cases res) (auto simp: worker_build_def Let_def split: if_splits option.splits)
  have "snd (build_arb_transaction (ce_sdk env) (ce_rpc env) tip (ri_swap_ixs item)
      (ce_payer env) JITO_TIP_LAMPORTS (lookup_cu_limit (ri_hop_count item) (ce_cu_limits env))
      (bt_blockhash b) (bt_alts b)) = Ok tx" using bld made by simp
  with made show "made_from env (ticket_of item) tx"
    unfolding made_from_def ticket_of_def prod.case by blast
qed

text \<open>Scans and requests push at most one ticket.\<close>

lemma scan_pair_lifo:
  assumes "scan_pair enc dec tc now pair p = Ok (p', job)"
  shows "ps_lifo p' = ps_lifo p \<or> (\<exists>x. ps_lifo p' = ps_lifo p @ [x])"
  using assms
proof (cases rule: scan_pair_cases)
  case (served p1 ixs)
  then show ?thesis by (auto simp: looked_def served_def push_to_queue_def Let_def)
next
  case (unserved p1 merged)
  then show ?thesis by (auto simp: looked_def tier3_def Let_def split: if_splits)
qed auto

lemma finish_lifo:
  "ps_lifo (finish_swap_job dec job r ms now p) = ps_lifo p \<or>
   (\<exists>x. ps_lifo (finish_swap_job dec job r ms now p) = ps_lifo p @ [x])"
  by (cases r) (auto simp: finish_swap_job_def push_to_queue_def Let_def)

lemma desk_arrival:
  assumes "mc_workers s' = mc_workers s"
    and "ps_lifo (bt_pipe (mc_bot s')) = ps_lifo (bt_pipe (mc_bot s)) \<or>
      (\<exists>x. ps_lifo (bt_pipe (mc_bot s')) = ps_lifo (bt_pipe (mc_bot s)) @ [x])"
  shows "desk_of s = desk_of s' \<or> desk_step makes (desk_of s) (desk_of s')"
  using assms(2)
proof
  assume "\<exists>x. ps_lifo (bt_pipe (mc_bot s')) = ps_lifo (bt_pipe (mc_bot s)) @ [x]"
  then obtain x where "desk_of s' = (desk_of s)\<lparr>dk_stack := dk_stack (desk_of s) @ [ticket_of x]\<rparr>"
    using assms(1) by (auto simp: desk_of_def)
  then show ?thesis by (metis desk_step.arrive)
qed (use assms(1) in \<open>simp add: desk_of_def\<close>)

subsection \<open>The bot implements the desk\<close>

lemma step_desk:
  assumes "step enc dec tc env s s'" and inv: "queue_inv s"
  shows "desk_of s = desk_of s' \<or> desk_step (made_from env) (desk_of s) (desk_of s')"
  using assms(1)
proof (cases rule: step.cases)
  case (acquire i b)
  then have "ps_lifo (bt_pipe b) = ps_lifo (bt_pipe (mc_bot s))"
    by (auto simp: worker_acquire_def split: if_splits)
  then show ?thesis
    using acquire(1-3) clerks_of_worker [OF acquire(2)] by (simp add: desk_of_worker stack_of)
next
  case (pop i b r)
  let ?l = "ps_lifo (bt_pipe (mc_bot s))"
  have ne: "?l \<noteq> []" using permit_has_item [OF inv] pop(2,3) by simp
  then have b: "ps_lifo (bt_pipe b) = butlast ?l" and r: "r = Some (last ?l)"
    using pop(4) by (auto simp: worker_pop_def)
  have "dk_stack (desk_of s) = map ticket_of (butlast ?l) @ [ticket_of (last ?l)]"
    using ne by (simp add: stack_of flip: map_append list.map(2) append_butlast_last_id)
       (metis append_butlast_last_id list.simps(8,9) map_append)
  with clerks_of_worker [OF pop(2)] pop(3)
  have "desk_step (made_from env) (desk_of s) ((desk_of s)\<lparr>dk_stack := map ticket_of (butlast ?l),
      dk_clerks := (dk_clerks (desk_of s))[i := Working (ticket_of (last ?l))]\<rparr>)"
    by (intro desk_step.take_newest) simp_all
  then show ?thesis using pop(1) b r by (simp add: desk_of_worker)
next
  case (decide i item now now' b d)
  note clerk = clerks_of_worker [OF decide(2), unfolded decide(3), simplified]
  note lifo = worker_decide_lifo [OF decide(4)]
  show ?thesis
  proof (cases d)
    case Requeued
    have "desk_step (made_from env) (desk_of s) ((desk_of s)\<lparr>dk_stack :=
        dk_stack (desk_of s) @ [ticket_of item], dk_clerks := (dk_clerks (desk_of s))[i := Idle]\<rparr>)"
      using clerk by (intro desk_step.put_back) simp_all
    then show ?thesis using decide(1) lifo Requeued
      by (simp add: desk_of_worker stack_of ticket_of_def)
  next
    case Discard
    have "desk_step (made_from env) (desk_of s)
        ((desk_of s)\<lparr>dk_clerks := (dk_clerks (desk_of s))[i := Idle]\<rparr>)"
      using clerk by (intro desk_step.give_up) simp_all
    then show ?thesis using decide(1) lifo Discard by (simp add: desk_of_worker flip: stack_of)
  next
    case (Proceed g)
    with decide(1) lifo clerk show ?thesis by (simp add: desk_of_worker flip: stack_of)
  qed
next
  case (build i item g tip b r)
  note clerk = clerks_of_worker [OF build(2), unfolded build(3), simplified]
  note facts = worker_build_facts [OF build(4)]
  show ?thesis
  proof (cases r)
    case (Built tx)
    then have "made_from env (ticket_of item) tx" by (rule facts(2))
    with clerk have "desk_step (made_from env) (desk_of s)
        ((desk_of s)\<lparr>dk_clerks := (dk_clerks (desk_of s))[i := Submitting tx]\<rparr>)"
      by (intro desk_step.submit) simp_all
    then show ?thesis using build(1) facts(1) Built by (simp add: desk_of_worker flip: stack_of)
  next
    case NotBuilt
    have "desk_step (made_from env) (desk_of s)
        ((desk_of s)\<lparr>dk_clerks := (dk_clerks (desk_of s))[i := Idle]\<rparr>)"
      using clerk by (intro desk_step.give_up) simp_all
    then show ?thesis using build(1) facts(1) NotBuilt by (simp add: desk_of_worker flip: stack_of)
  qed (use build(5) in simp)
next
  case (send i tx g)
  note clerk = clerks_of_worker [OF send(2), unfolded send(3), simplified]
  have "desk_step (made_from env) (desk_of s)
      ((desk_of s)\<lparr>dk_clerks := (dk_clerks (desk_of s))[i := Idle]\<rparr>)"
    using clerk by (intro desk_step.conclude) simp_all
  then show ?thesis using send(1) by (simp add: desk_of_worker worker_send_def flip: stack_of)
next
  case (wake i)
  then show ?thesis using clerks_of_worker [OF wake(2)] by (simp add: desk_of_workers)
next
  case (scan now pair p job)
  with scan_pair_lifo [OF scan(2)] show ?thesis by (intro desk_arrival) simp_all
next
  case (finish js job js' r ms now)
  with finish_lifo show ?thesis by (intro desk_arrival) simp_all
qed (auto simp: desk_of_def)

interpretation sim: simulation "step enc dec tc env" queue_inv "desk_step (made_from env)" desk_of
  by unfold_locales (rule step_desk)

lemma desk_of_initial: "desk_of (initial n (start_bot rate grpc_rate tips h st)) = empty_desk n"
  by (simp add: desk_of_def initial_def start_bot_def empty_desk_def)

text \<open>What the desk guarantees: the number of clerks is fixed and every submission was made from a
  ticket.\<close>

definition desk_ok :: "(ticket \<Rightarrow> versioned_transaction \<Rightarrow> bool) \<Rightarrow> nat \<Rightarrow> desk \<Rightarrow> bool" where
  "desk_ok makes n d \<longleftrightarrow> length (dk_clerks d) = n \<and>
     (\<forall>tx. Submitting tx \<in> set (dk_clerks d) \<longrightarrow> (\<exists>t. makes t tx))"

inductive_cases desk_stepE: "desk_step makes d d'"

interpretation ok: kept_invariant "desk_step makes" "desk_ok makes n"
  by unfold_locales
    (auto simp: desk_ok_def simp del: split_paired_Ex elim!: desk_stepE dest!: set_update_subset_insert [THEN subsetD])

fun_cases clerk_SubmittingE: "clerk_of w = Submitting tx"

lemma desk_submits:
  "Submitting tx \<in> set (dk_clerks (desk_of s)) \<longleftrightarrow> (\<exists>g. Sending tx g \<in> set (mc_workers s))"
  by (force simp: desk_of_def elim: clerk_SubmittingE [OF sym])

text \<open>C2: The bot implements the desk: forgetting permits, counters, clocks, limiters and caches,
  every run of scanner, requests and workers is a run of the abstract desk, in which taking
  the newest ticket is one atomic operation that never finds the stack empty.  So each
  submitted transaction was built from the instructions of a ticket that arrived, and no
  worker appears or is lost.\<close>

theorem bot_refines_desk:
  assumes "reachable enc dec tc env (initial n (start_bot rate grpc_rate tips h st)) s"
  shows "(desk_step (made_from env))\<^sup>*\<^sup>* (empty_desk n) (desk_of s) \<and>
    length (mc_workers s) = n \<and>
    (\<forall>tx g. Sending tx g \<in> set (mc_workers s) \<longrightarrow> (\<exists>t. made_from env t tx))"
proof -
  let ?s0 = "initial n (start_bot rate grpc_rate tips h st)"
  have run: "(step enc dec tc env)\<^sup>*\<^sup>* ?s0 s" using assms by (simp add: reachable_rtranclp)
  have "desk_ok (made_from env) n (desk_of s)"
    by (rule sim.abstract_property [OF ok.kept_invariant_axioms run initial_inv])
      (simp add: desk_of_initial desk_ok_def empty_desk_def)
  moreover have "(desk_step (made_from env))\<^sup>*\<^sup>* (empty_desk n) (desk_of s)"
    using sim.run [OF run initial_inv] by (simp add: desk_of_initial)
  moreover have "length (dk_clerks (desk_of s)) = length (mc_workers s)" by (simp add: desk_of_def)
  ultimately show ?thesis unfolding desk_ok_def desk_submits by (intro conjI) auto
qed

theorem bot_refines_desk_witness:
  "\<exists>s tx. reachable plain_enc no_dec serving_config sample_env sample_start s \<and>
     mc_workers s = [Sending tx False] \<and> (\<exists>t. made_from sample_env t tx)"
proof -
  obtain s tx where s: "reachable plain_enc no_dec serving_config sample_env sample_start s"
    and w: "mc_workers s = [Sending tx False]" using sample_sending by blast
  from bot_refines_desk [OF s [unfolded sample_start_def]] w
  have "\<exists>t. made_from sample_env t tx" by (metis list.set_intros(1))
  with s w show ?thesis by blast
qed

end
