(* ===== verification/Restarts.thy ===== *)
theory Restarts
  imports Startup Desk
begin

text \<open>
  The bot over any number of processes: it starts from what is on disk, runs, flushes its
  templates now and then (\<open>spawn_flush_task\<close> of \<open>src/src/template_cache.rs\<close>), and is killed and
  started again at any moment.  The files are the only thing that survives.
\<close>

subsection \<open>Lives\<close>

text \<open>A flush is cut at its writes: the routes are written from one reading of the store, each
  file of hops from some earlier or later one.  Any write may fail.  The first number counts
  the restarts.\<close>

inductive lifetime ::
  "'t serde \<Rightarrow> parser \<Rightarrow> (string list \<Rightarrow> string \<Rightarrow> ('e, 'c) outcome) \<Rightarrow> 'f config \<Rightarrow> encoder \<Rightarrow> decoder \<Rightarrow>
   calc_env \<Rightarrow> 't fs \<Rightarrow> nat \<Rightarrow> 't fs \<Rightarrow> machine \<Rightarrow> bool"
  for sd parse connect cfg enc dec env fs0 where
  first: "lifetime sd parse connect cfg enc dec env fs0 0 fs0 (start_machine sd fs0 parse connect h cfg)"
| work: "lifetime sd parse connect cfg enc dec env fs0 n fs s'"
    if "lifetime sd parse connect cfg enc dec env fs0 n fs s"
      "step enc dec (cfg_template_cache cfg) env s s'"
| flush_routes: "lifetime sd parse connect cfg enc dec env fs0 n
      (flush_routes_to_disk sd io (ps_store (bt_pipe (mc_bot s))) fs) s"
    if "lifetime sd parse connect cfg enc dec env fs0 n fs s"
| flush_hops: "lifetime sd parse connect cfg enc dec env fs0 n (write_dex_file sd io dex_file fs) s"
    if "lifetime sd parse connect cfg enc dec env fs0 n fs s"
| restart: "lifetime sd parse connect cfg enc dec env fs0 (Suc n) fs
      (start_machine sd fs parse connect h cfg)"
    if "lifetime sd parse connect cfg enc dec env fs0 n fs s"

subsection \<open>The size of the store\<close>

text \<open>Loading fills the hot segment without rotating it, so it may be longer than a segment as
  long as the cold one is empty.\<close>

definition within_room :: "nat \<Rightarrow> store \<Rightarrow> bool" where
  "within_room B g \<longleftrightarrow> length (routes_cold g) \<le> B \<and>
     (length (routes_hot g) \<le> ROUTE_SEG_CAP \<or> length (routes_hot g) \<le> B \<and> routes_cold g = [])"

lemma within_room_count: "within_room B g \<Longrightarrow> route_count g \<le> B + ROUTE_SEG_CAP"
  by (auto simp: within_room_def route_count_def)

lemma within_room_mono: "within_room B g \<Longrightarrow> B \<le> B' \<Longrightarrow> within_room B' g"
  by (auto simp: within_room_def)

lemma within_room_push:
  "within_room B g \<Longrightarrow> ROUTE_SEG_CAP \<le> B \<Longrightarrow> within_room B (push_hot_route sig t g)"
  by (auto simp: within_room_def push_hot_route_def Let_def length_hm_insert ROUTE_SEG_CAP_def)

lemma within_room_frame:
  "within_room B g \<Longrightarrow> length (routes_hot g') = length (routes_hot g) \<Longrightarrow>
   length (routes_cold g') = length (routes_cold g) \<Longrightarrow> within_room B g'"
  by (auto simp: within_room_def)

lemma within_room_index [simp]: "within_room B (g\<lparr>hop_pair_index := m\<rparr>) = within_room B g"
  by (simp add: within_room_def)

lemma within_room_get_route:
  assumes "segments_ok g" and "within_room B g" and "ROUTE_SEG_CAP \<le> B"
  shows "within_room B (fst (get_route sig g))"
proof (cases rule: get_route_cases [of g sig])
  case (cold t)
  have "within_room B (g\<lparr>routes_cold := hm_remove sig (routes_cold g)\<rparr>)"
    using assms(1,2) cold(2) by (auto simp: within_room_def segments_ok_def length_hm_remove)
  with cold(3) assms(3) show ?thesis by (simp add: within_room_push)
qed (use assms(2) in simp)

lemma within_room_insert_route:
  assumes "within_room B g" and "ROUTE_SEG_CAP \<le> B"
  shows "within_room B (insert_route dec sig r i q plan g)"
  using assms(1) within_room_push [OF assms]
  by (auto simp: insert_route_def Let_def split: option.splits intro: within_room_frame)

lemma within_room_run_op:
  assumes "segments_ok g" and "within_room B g" and "ROUTE_SEG_CAP \<le> B"
  shows "within_room B (run_op dec oper g)"
proof (cases oper)
  case (OpGetHops plan)
  then show ?thesis
    using get_route_for_hops_cases [of plan g] within_room_get_route [OF assms] assms(2) by auto
qed (use assms in \<open>auto simp: within_room_get_route within_room_insert_route record_route_hit_def
      frame_simps intro: within_room_frame\<close>)

lemma within_room_fold:
  assumes "store_inv dec g" and "within_room B g" and "ROUTE_SEG_CAP \<le> B"
  shows "within_room B (fold (run_op dec) ops g)"
  using assms(1,2)
proof (induction ops arbitrary: g)
  case (Cons oper ops)
  then show ?case
    using within_room_run_op [OF _ _ assms(3)] run_op_keeps(1) by (simp add: store_inv_def)
qed simp

subsection \<open>Loading\<close>

lemma load_route_hops:
  "load_route rec (g\<lparr>hops := h\<rparr>, n) =
     (fst (load_route rec (g, n))\<lparr>hops := h\<rparr>, snd (load_route rec (g, n)))"
  by (simp add: load_route_def split: option.split)

lemma fold_load_route_hops:
  "fold load_route recs (g\<lparr>hops := h\<rparr>, n) =
     (fst (fold load_route recs (g, n))\<lparr>hops := h\<rparr>, snd (fold load_route recs (g, n)))"
proof (induction recs arbitrary: g n)
  case (Cons rec recs)
  show ?case using Cons.IH [of "fst (load_route rec (g, n))" "snd (load_route rec (g, n))"]
    by (simp add: load_route_hops)
qed simp

lemma fold_load_pair_hops:
  "fold load_pair ps (g\<lparr>hops := h\<rparr>) = (fold load_pair ps g)\<lparr>hops := h\<rparr>"
proof (induction ps arbitrary: g)
  case (Cons p ps)
  have "load_pair p (g\<lparr>hops := h\<rparr>) = (load_pair p g)\<lparr>hops := h\<rparr>"
    by (simp add: load_pair_def split: prod.split option.split)
  then show ?case using Cons.IH by simp
qed simp

lemma load_routes_hops:
  "load_routes_from_disk sd fs (g\<lparr>hops := h\<rparr>) =
     (fst (load_routes_from_disk sd fs g)\<lparr>hops := h\<rparr>, snd (load_routes_from_disk sd fs g))"
  by (simp add: load_routes_from_disk_def fold_load_route_hops fold_load_pair_hops case_prod_unfold
      Let_def split: option.split)

lemma load_route_size:
  "length (routes_hot (fst (load_route rec p))) \<le> Suc (length (routes_hot (fst p)))"
  by (auto simp: load_route_def length_hm_insert split: prod.split option.split)

lemma fold_load_route_size:
  "length (routes_hot (fst (fold load_route recs p))) \<le> length recs + length (routes_hot (fst p))"
proof (induction recs arbitrary: p)
  case (Cons rec recs)
  show ?case using Cons.IH [of "load_route rec p"] load_route_size [of rec p] by simp
qed simp

lemma load_route_ok:
  "hm_ok (routes_hot (fst p)) \<Longrightarrow> hm_ok (routes_hot (fst (load_route rec p)))"
  by (auto simp: load_route_def split: prod.split option.split)

lemma fold_load_route_ok:
  "hm_ok (routes_hot (fst p)) \<Longrightarrow> hm_ok (routes_hot (fst (fold load_route recs p)))"
  by (induction recs arbitrary: p) (simp_all add: load_route_ok)

lemma fold_load_pair_ok:
  "hm_ok (hop_pair_index g) \<Longrightarrow> hm_ok (hop_pair_index (fold load_pair ps g))"
proof (induction ps arbitrary: g)
  case (Cons p ps)
  have "hm_ok (hop_pair_index (load_pair p g))"
    using Cons.prems by (auto simp: load_pair_def split: prod.split option.split)
  then show ?case using Cons.IH by simp
qed simp

subsection \<open>What the disk holds\<close>

text \<open>The file of routes is missing, or it is the complete image of a well-formed store.\<close>

definition disk_ok :: "'t serde \<Rightarrow> decoder \<Rightarrow> nat \<Rightarrow> 't fs \<Rightarrow> bool" where
  "disk_ok sd dec B fs \<longleftrightarrow> hm_ok fs \<and>
     (hm_get fs routes_path = None \<or>
      (\<exists>g. store_inv dec g \<and> within_room B g \<and>
         hm_get fs routes_path = ser_routes sd (route_file_of g)))"

lemma disk_ok_mono: "disk_ok sd dec B fs \<Longrightarrow> B \<le> B' \<Longrightarrow> disk_ok sd dec B' fs"
  by (auto simp: disk_ok_def intro: within_room_mono)

lemma disk_ok_flush_routes:
  assumes "disk_ok sd dec B fs" and "store_inv dec g" and "within_room B g"
  shows "disk_ok sd dec B (flush_routes_to_disk sd io g fs)"
proof -
  have "\<not> suffix ''.tmp'' routes_path" by (simp add: routes_path_def suffix_def BASE_DIR_def)
  with assms show ?thesis
    by (auto simp: disk_ok_def flush_routes_to_disk_def write_rename_atomic split: option.split)
qed

lemma disk_ok_flush_hops:
  assumes "disk_ok sd dec B fs"
  shows "disk_ok sd dec B (write_dex_file sd io dex_file fs)"
  using assms write_dex_files_routes [of fs sd io "[dex_file]"] hm_ok_write_dex_files [of fs sd io "[dex_file]"]
  by (simp add: disk_ok_def)

lemma template_wf_stripped [simp]: "template_wf dec sig (stripped t) = template_wf dec sig t"
  by (simp add: template_wf_def stripped_def)

text \<open>\<open>spawn_flush_task\<close>: a tick every \<open>flush_period\<close> seconds, the first at once and discarded; each
  later one flushes the store of that moment.\<close>

definition flush_period :: "u64 \<Rightarrow> u64" where
  "flush_period secs = max secs 1"

definition flush_task :: "'t serde \<Rightarrow> (store \<times> 't io_faults) list \<Rightarrow> 't fs \<Rightarrow> 't fs" where
  "flush_task sd ticks = fold (\<lambda>(g, io). flush_to_disk sd io g) (drop 1 ticks)"

lemma flush_task_disk_ok:
  assumes "disk_ok sd dec B fs" and "\<forall>(g, io) \<in> set ticks. store_inv dec g \<and> within_room B g"
  shows "disk_ok sd dec B (flush_task sd ticks fs)"
proof -
  have "disk_ok sd dec B (flush_to_disk sd io g fs)"
    if "disk_ok sd dec B fs" "store_inv dec g" "within_room B g" for g io fs
    unfolding flush_to_disk_def using disk_ok_flush_routes [OF that]
    by (intro fold_invariant [where Q = "\<lambda>_. True" and P = "disk_ok sd dec B"] disk_ok_flush_hops) auto
  then show ?thesis
    unfolding flush_task_def using assms
    by (intro fold_invariant [where Q = "\<lambda>x. x \<in> set ticks" and P = "disk_ok sd dec B"])
      (auto dest: in_set_dropD)
qed

text \<open>Loading hops changes the table of hops and nothing else.\<close>

definition hops_only :: "store \<Rightarrow> store \<times> nat \<Rightarrow> bool" where
  "hops_only g p \<longleftrightarrow> hm_ok (hops (fst p)) \<and> (\<exists>h. fst p = g\<lparr>hops := h\<rparr>)"

lemma hops_only_entry:
  "hops_only g (g', n) \<Longrightarrow> hops_only g (g'\<lparr>hops := hm_or_insert k t (hops g')\<rparr>, n')"
  by (auto simp: hops_only_def)

lemma hops_only_file: "hops_only g p \<Longrightarrow> hops_only g (load_hop_file sd e p)"
  by (auto simp: load_hop_file_def split: prod.split option.split
      intro!: fold_invariant [where Q = "\<lambda>_. True" and P = "hops_only g"] intro: hops_only_entry)

lemma hops_only_load: "hm_ok (hops g) \<Longrightarrow> hops_only g (load_from_disk sd fs g)"
  unfolding load_from_disk_def
  by (rule fold_invariant [where Q = "\<lambda>_. True" and P = "hops_only g"])
    (auto simp: hops_only_file, auto simp: hops_only_def intro: exI [of _ "hops g"])

lemma load_routes_segments:
  "routes_cold (fst (load_routes_from_disk sd fs new_store)) = [] \<and>
   hm_ok (routes_hot (fst (load_routes_from_disk sd fs new_store))) \<and>
   hm_ok (hop_pair_index (fst (load_routes_from_disk sd fs new_store)))"
proof (cases "Option.bind (hm_get fs routes_path) (de_routes sd)")
  case (Some f)
  have "hm_ok (hop_pair_index (fold load_pair ps (fst (fold load_route recs (new_store, 0)))))" for ps recs
    by (rule fold_load_pair_ok) (simp add: frame_simps, simp add: new_store_def)
  then show ?thesis using fold_load_route_ok [of "(new_store, 0)"] Some
    by (simp add: load_routes_from_disk_def case_prod_unfold Let_def frame_simps)
      (simp add: new_store_def)
qed (simp add: load_routes_from_disk_def, simp add: new_store_def)

lemma load_routes_size:
  assumes "serde_ok sd" and "hm_ok (hop_pair_index g)"
    and "hm_get fs routes_path = ser_routes sd (route_file_of g)"
  shows "length (routes_hot (fst (load_routes_from_disk sd fs new_store))) \<le> route_count g"
proof -
  have "hm_ok (rf_hop_pairs (route_file_of g))"
    using assms(2) by (simp add: route_file_of_def hm_ok_def comp_def case_prod_unfold)
  with assms(1) obtain t f' where f': "ser_routes sd (route_file_of g) = Some t"
      "de_routes sd t = Some f'" "rf_routes f' = rf_routes (route_file_of g)"
    unfolding serde_ok_def by blast
  have "length (routes_hot (fst (fold load_route (rf_routes f') (new_store, 0)))) \<le> length (rf_routes f')"
    using fold_load_route_size [of "rf_routes f'" "(new_store, 0)"] by (simp add: new_store_def)
  also have "length (rf_routes f') = route_count g"
    by (simp add: f'(3) route_file_of_def route_count_def)
  finally show ?thesis
    using f'(1,2) assms(3) by (simp add: load_routes_from_disk_def case_prod_unfold Let_def frame_simps)
qed

text \<open>The store a process starts with, in terms of the two loaders.\<close>

lemma load_templates_store:
  assumes "save_new tc \<or> serve_route_enabled tc"
  obtains h where "hm_ok h"
    "fst (load_templates sd fs tc) = (fst (load_routes_from_disk sd fs new_store))\<lparr>hops := h\<rparr>"
proof -
  have "hm_ok (hops new_store)" by (simp add: new_store_def)
  from hops_only_load [OF this, of sd fs] obtain h where
    "fst (load_from_disk sd fs new_store) = new_store\<lparr>hops := h\<rparr>" "hm_ok h"
    by (auto simp: hops_only_def)
  with that assms show ?thesis
    by (simp add: load_templates_def case_prod_unfold load_routes_hops)
qed

lemma lookup_hops [simp]: "lookup_route (g\<lparr>hops := h\<rparr>) sig = lookup_route g sig"
  by (simp add: lookup_route_def split: option.split)

lemma load_templates_inv:
  assumes sd: "serde_ok sd" and disk: "disk_ok sd dec B fs"
  shows "store_inv dec (fst (load_templates sd fs tc)) \<and>
    within_room (B + ROUTE_SEG_CAP) (fst (load_templates sd fs tc))"
proof (cases "save_new tc \<or> serve_route_enabled tc")
  case False
  then show ?thesis
    by (simp add: load_templates_def) (simp add: within_room_def new_store_def)
next
  case True
  let ?L = "fst (load_routes_from_disk sd fs new_store)"
  obtain h where h: "hm_ok h" and load: "fst (load_templates sd fs tc) = ?L\<lparr>hops := h\<rparr>"
    using load_templates_store [OF True] .
  have seg: "segments_ok (?L\<lparr>hops := h\<rparr>)"
    using load_routes_segments [of sd fs] h by (simp add: segments_ok_def)
  have "templates_ok dec ?L \<and> length (routes_hot ?L) \<le> B + ROUTE_SEG_CAP"
  proof (cases "hm_get fs routes_path")
    case None
    then have "?L = new_store" by (simp add: load_routes_from_disk_def)
    then show ?thesis by (simp add: templates_ok_def lookup_route_def new_store_def)
  next
    case (Some t)
    then obtain g where g: "store_inv dec g" "within_room B g"
        "hm_get fs routes_path = ser_routes sd (route_file_of g)"
      using disk by (auto simp: disk_ok_def)
    then have "segments_ok g" "filed g" by (auto simp: store_inv_def filed_if_inv)
    note lookup = load_flushed_routes(1) [OF sd this g(3)]
    have "hm_ok (hop_pair_index g)" using \<open>segments_ok g\<close> by (simp add: segments_ok_def)
    note load_routes_size [OF sd this g(3)]
    also note within_room_count [OF g(2)]
    finally show ?thesis
      using g(1) by (auto simp: templates_ok_def lookup store_inv_def)
  qed
  then show ?thesis
    using seg load_routes_segments [of sd fs]
    by (simp add: load store_inv_def templates_ok_def within_room_def)
qed

subsection \<open>The invariant of all lives\<close>

lemma step_store:
  assumes "step enc dec tc env s s'" and "queue_inv s"
  shows "\<exists>ops. ps_store (bt_pipe (mc_bot s')) = fold (run_op dec) ops (ps_store (bt_pipe (mc_bot s)))"
  using assms(1)
proof (cases rule: step.cases)
  case (scan now pair p job)
  then show ?thesis using scan_pair_store [OF scan(2)] by simp
next
  case (finish js job js' r ms now)
  then show ?thesis using finish_swap_job_store by simp
next
  case (decide i item now now' b d)
  with worker_decide_effect [OF decide(4) queue_invD(4) [OF assms(2)]] show ?thesis
    by (auto intro: exI [of _ "[]"])
next
  case (build i item g tip b r)
  with worker_build_effect [OF build(4) queue_invD(4) [OF assms(2)]] show ?thesis
    by (auto intro: exI [of _ "[]"])
qed (auto simp: worker_acquire_def worker_pop_def worker_send_def split: if_splits option.splits
      intro!: exI [of _ "[]"])

definition alive :: "'t serde \<Rightarrow> decoder \<Rightarrow> calc_env \<Rightarrow> pubkey list \<Rightarrow> nat \<Rightarrow> 't fs \<Rightarrow> machine \<Rightarrow> bool" where
  "alive sd dec env tips B fs s \<longleftrightarrow>
     queue_inv s \<and> safe dec env tips s \<and> within_room B (ps_store (bt_pipe (mc_bot s))) \<and>
     disk_ok sd dec B fs"

lemma alive_start:
  assumes "serde_ok sd" and "disk_ok sd dec B fs"
  shows "alive sd dec env (jito_tip_pubkeys parse) (B + ROUTE_SEG_CAP) fs
    (start_machine sd fs parse connect h cfg)"
  using load_templates_inv [OF assms, of "cfg_template_cache cfg"] disk_ok_mono [OF assms(2)]
  by (simp add: alive_def start_machine_def initial_inv initial_safe)
    (simp add: initial_def start_bot_def)

lemma safe_store: "safe dec env tips s \<Longrightarrow> store_inv dec (ps_store (bt_pipe (mc_bot s)))"
  by (simp add: safe_def)

lemma life_alive:
  assumes "lifetime sd parse connect cfg enc dec env fs0 n fs s"
    and "serde_ok sd" and "disk_ok sd dec 0 fs0"
  shows "alive sd dec env (jito_tip_pubkeys parse) (Suc n * ROUTE_SEG_CAP) fs s"
  using assms(1)
proof induction
  case (first h)
  then show ?case using alive_start [OF assms(2,3)] by simp
next
  case (work n fs s s')
  then have inv: "queue_inv s" "safe dec env (jito_tip_pubkeys parse) s" by (simp_all add: alive_def)
  obtain ops where "ps_store (bt_pipe (mc_bot s')) =
      fold (run_op dec) ops (ps_store (bt_pipe (mc_bot s)))"
    using step_store [OF work.hyps(2) inv(1)] ..
  then have "within_room (Suc n * ROUTE_SEG_CAP) (ps_store (bt_pipe (mc_bot s')))"
    using work.IH safe_store [OF inv(2)] by (simp add: alive_def within_room_fold)
  with work inv show ?case
    by (auto simp: alive_def intro: step_queue_inv step_safe)
next
  case (flush_routes n fs s io)
  then show ?case by (auto simp: alive_def intro: disk_ok_flush_routes safe_store)
next
  case (flush_hops n fs s io dex_file)
  then show ?case by (simp add: alive_def disk_ok_flush_hops)
next
  case (restart n fs s h)
  then have "disk_ok sd dec (Suc n * ROUTE_SEG_CAP) fs" by (simp add: alive_def)
  from alive_start [OF assms(2) this] show ?case by (simp add: algebra_simps)
qed

subsection \<open>Properties\<close>

text \<open>A configuration that serves from memory, with one worker.\<close>

definition sample_config :: "unit config" where
  "sample_config =
     \<lparr>cfg_metis = \<lparr>mc_url = [], mc_binary_key = []\<rparr>,
      cfg_trading = \<lparr>tc_min_amount_sol = (), tc_max_amount_sol = (), tc_step_sol = (),
        tc_min_profit_lamports = 0, tc_base_fee_lamports = 0, tc_tokens_file = []\<rparr>,
      cfg_jito = \<lparr>jc_urls = [], jc_uuid = [], jc_trading_keypair = [], jc_tip_min_lamports = 0,
        jc_tip_max_lamports = 0, jc_tip_profit_percent = (), jc_max_bundles_per_second = 5\<rparr>,
      cfg_rpc = \<lparr>rc_url = []\<rparr>, cfg_yellowstone_grpc = \<lparr>yc_endpoint = [], yc_x_token = []\<rparr>,
      cfg_performance = \<lparr>pc_threads = 1, pc_quote_timeout_ms = 1, pc_cu_limits = [],
        pc_max_concurrent_quotes = 1, pc_calc_workers = 1, pc_queue_max_age_ms = 1000,
        pc_bot_cpu_cores = []\<rparr>,
      cfg_simulation = default_simulation_config, cfg_jito_grpc = default_jito_grpc_config,
      cfg_template_cache = serving_config\<rparr>"

definition no_grpc :: "string list \<Rightarrow> string \<Rightarrow> (unit, unit) outcome" where
  "no_grpc endpoints keypair_path = Err ()"

lemma sample_config_start:
  "start_machine plain_serde [] (sdk_parse sample_sdk) no_grpc (Some []) sample_config = sample_start"
  by (simp add: start_machine_def sample_config_def sample_start_def grpc_setup_def worker_count_def
      default_jito_grpc_config_def new_blockhash_def load_templates_def serving_config_def
      load_from_disk_def dir_entries_def load_routes_from_disk_def)

lemma life_reachable:
  assumes "reachable enc dec (cfg_template_cache cfg) env s s'"
    and "lifetime sd parse connect cfg enc dec env fs0 n fs s"
  shows "lifetime sd parse connect cfg enc dec env fs0 n fs s'"
  using assms by (induction rule: reachable.induct) (auto intro: lifetime.work)

abbreviation sample_life :: "disk_text fs \<Rightarrow> machine \<Rightarrow> bool" where
  "sample_life \<equiv> lifetime plain_serde (sdk_parse sample_sdk) no_grpc
     sample_config plain_enc no_dec sample_env [] 0"

lemma sample_life:
  "\<exists>s sig. sample_life [] s \<and> lookup_route (ps_store (bt_pipe (mc_bot s))) sig \<noteq> None"
proof -
  have "sample_life [] (start_machine plain_serde [] (sdk_parse sample_sdk)
      no_grpc (Some []) sample_config)" by (rule lifetime.first)
  then have start: "sample_life [] sample_start" by (simp only: sample_config_start)
  have cfg: "cfg_template_cache sample_config = serving_config" by (simp add: sample_config_def)
  from sample_queued obtain s sig where
    "reachable plain_enc no_dec serving_config sample_env sample_start s"
    "lookup_route (ps_store (bt_pipe (mc_bot s))) sig \<noteq> None" by blast
  with life_reachable [OF _ start, unfolded cfg] show ?thesis by blast
qed

text \<open>C4: However often the bot is killed and started again, at whatever moment and whichever of its
  writes failed: what it sends stays within the limits, its templates are filed under their
  own signatures with the offsets found in their own instructions, the file of routes is
  missing or the complete image of such a store (so it is never torn), and after \<open>n\<close>
  restarts at most \<open>n + 2\<close> segments of routes are in memory.\<close>

theorem safe_in_every_life:
  assumes "lifetime sd parse connect cfg enc dec env fs0 n fs s"
    and "serde_ok sd" and "hm_ok fs0" and "hm_get fs0 routes_path = None"
  shows "(\<forall>tx g. Sending tx g \<in> set (mc_workers s) \<longrightarrow>
      account_lock_count tx \<le> 64 \<and> (\<exists>bs. ce_bytes env tx = Some bs \<and> length bs \<le> 1232)) \<and>
    store_inv dec (ps_store (bt_pipe (mc_bot s))) \<and>
    (hm_get fs routes_path = None \<or>
      (\<exists>g. store_inv dec g \<and> hm_get fs routes_path = ser_routes sd (route_file_of g))) \<and>
    route_count (ps_store (bt_pipe (mc_bot s))) \<le> (n + 2) * ROUTE_SEG_CAP"
proof -
  have "disk_ok sd dec 0 fs0" using assms(3,4) by (simp add: disk_ok_def)
  with assms(1,2) have "alive sd dec env (jito_tip_pubkeys parse) (Suc n * ROUTE_SEG_CAP) fs s"
    by (rule life_alive)
  then show ?thesis
    using within_room_count by (fastforce simp: alive_def safe_def disk_ok_def)
qed

theorem safe_in_every_life_witness:
  "\<exists>s fs. lifetime plain_serde (sdk_parse sample_sdk) no_grpc sample_config
      plain_enc no_dec sample_env [] 1 fs s \<and> fs \<noteq> [] \<and>
    route_count (ps_store (bt_pipe (mc_bot s))) \<le> 3 * ROUTE_SEG_CAP"
proof -
  obtain s where s: "sample_life [] s" using sample_life by blast
  let ?fs = "flush_routes_to_disk plain_serde no_faults (ps_store (bt_pipe (mc_bot s))) []"
  have "hm_get ?fs routes_path \<noteq> None"
    by (simp add: flush_routes_to_disk_def plain_serde_def write_rename_no_faults)
  then have "?fs \<noteq> []" by auto
  moreover note lifetime.restart [OF lifetime.flush_routes [OF s, of no_faults], of "Some []"]
  moreover from safe_in_every_life [OF this plain_serde_ok] have
    "route_count (ps_store (bt_pipe (mc_bot (start_machine plain_serde ?fs (sdk_parse sample_sdk)
       no_grpc (Some []) sample_config)))) \<le> 3 * ROUTE_SEG_CAP" by simp
  ultimately show ?thesis by (metis One_nat_def)
qed

text \<open>C19: Restarting loses no route: at any moment of any life, if the flush succeeds, the process
  started from the files afterwards holds the same templates and the same pair index, all but
  the cached instructions for exact amounts.\<close>

theorem restart_keeps_routes:
  assumes "lifetime sd parse connect cfg enc dec env fs0 n fs s"
    and "serde_ok sd" and "hm_ok fs0" and "hm_get fs0 routes_path = None"
    and "save_new (cfg_template_cache cfg) \<or> serve_route_enabled (cfg_template_cache cfg)"
  shows "lookup_route (ps_store (bt_pipe (mc_bot (start_machine sd
        (flush_to_disk sd no_faults (ps_store (bt_pipe (mc_bot s))) fs) parse connect h cfg)))) sig =
      map_option stripped (lookup_route (ps_store (bt_pipe (mc_bot s))) sig) \<and>
    hm_get (hop_pair_index (ps_store (bt_pipe (mc_bot (start_machine sd
        (flush_to_disk sd no_faults (ps_store (bt_pipe (mc_bot s))) fs) parse connect h cfg))))) k =
      hm_get (hop_pair_index (ps_store (bt_pipe (mc_bot s)))) k"
proof -
  let ?g = "ps_store (bt_pipe (mc_bot s))" and ?tc = "cfg_template_cache cfg"
  let ?fs = "flush_to_disk sd no_faults ?g fs"
  have "disk_ok sd dec 0 fs0" using assms(3,4) by (simp add: disk_ok_def)
  with assms(1,2) have "alive sd dec env (jito_tip_pubkeys parse) (Suc n * ROUTE_SEG_CAP) fs s"
    by (rule life_alive)
  then have "store_inv dec ?g" "hm_ok fs" by (auto simp: alive_def safe_def disk_ok_def)
  note same = routes_survive_restart [OF assms(2) this]
  obtain h' where "fst (load_templates sd ?fs ?tc) =
      (fst (load_routes_from_disk sd ?fs new_store))\<lparr>hops := h'\<rparr>"
    using load_templates_store [OF assms(5)] .
  then have "ps_store (bt_pipe (mc_bot (start_machine sd ?fs parse connect h cfg))) =
      (fst (load_routes_from_disk sd ?fs new_store))\<lparr>hops := h'\<rparr>"
    by (simp add: start_machine_def initial_def start_bot_def)
  with same show ?thesis by simp
qed

theorem restart_keeps_routes_witness:
  "\<exists>s sig. sample_life [] s \<and> lookup_route (ps_store (bt_pipe (mc_bot s))) sig \<noteq> None \<and>
     lookup_route (ps_store (bt_pipe (mc_bot (start_machine plain_serde (flush_to_disk plain_serde no_faults
        (ps_store (bt_pipe (mc_bot s))) []) (sdk_parse sample_sdk) no_grpc
        (Some []) sample_config)))) sig \<noteq> None"
proof -
  obtain s sig where s: "sample_life [] s"
    and stored: "lookup_route (ps_store (bt_pipe (mc_bot s))) sig \<noteq> None" using sample_life by blast
  have "save_new (cfg_template_cache sample_config) \<or> serve_route_enabled (cfg_template_cache sample_config)"
    by (simp add: sample_config_def serving_config_def)
  from restart_keeps_routes [OF s plain_serde_ok _ _ this, of "Some []" sig] stored
  have "lookup_route (ps_store (bt_pipe (mc_bot (start_machine plain_serde (flush_to_disk plain_serde
      no_faults (ps_store (bt_pipe (mc_bot s))) []) (sdk_parse sample_sdk)
      no_grpc (Some []) sample_config)))) sig \<noteq> None" by simp
  with s stored show ?thesis by blast
qed

end
