(* ===== verification/ScanCycle.thy ===== *)
theory ScanCycle
  imports Desk
begin

text \<open>
  \<open>scan_all_tokens\<close> of \<open>src/src/arbitrage.rs\<close> as a whole, and the loop of \<open>main\<close> around it: the
  triples of a cycle are checked concurrently, and each profitable pair is processed when its
  check completes.  A completion carries the triple, the engine's answers to its two quotes and
  the clock.  Which completions \<open>buffer_unordered\<close> delivers is an argument; its documented law
  is that every triple is delivered exactly once.  The counters of a check are bumped when it
  completes; since they are only ever added to, bumping some of them earlier, as the code does,
  gives the same sums.  The conversion of an amount in SOL to lamports, which goes through
  floating point, is an argument as well.
\<close>

type_synonym triple = "u64 \<times> string \<times> bool"
type_synonym completion = "triple \<times> quote_fn \<times> instant"
type_synonym scan_state = "pipeline_state \<times> token_metrics \<times> swap_job list"

definition scan_one ::
  "encoder \<Rightarrow> decoder \<Rightarrow> template_cache_config \<Rightarrow> u64 \<Rightarrow> completion \<Rightarrow> scan_state \<Rightarrow>
   (unit, scan_state) outcome" where
  "scan_one enc dec tc min_profit = (\<lambda>((amt, tok, direct), quote, now) (p, tm, jobs).
     (case quote_check quote tok amt direct min_profit (ps_metrics p) tm of
        (m, tm, None) \<Rightarrow> Ok (p\<lparr>ps_metrics := m\<rparr>, tm, jobs)
      | (m, tm, Some pair) \<Rightarrow>
          bind_outcome (scan_pair enc dec tc now pair (p\<lparr>ps_metrics := m\<rparr>))
            (\<lambda>(p, job). Ok (p, tm, case job of None \<Rightarrow> jobs | Some j \<Rightarrow> j # jobs))))"

fun scan_results ::
  "encoder \<Rightarrow> decoder \<Rightarrow> template_cache_config \<Rightarrow> u64 \<Rightarrow> completion list \<Rightarrow> scan_state \<Rightarrow>
   (unit, scan_state) outcome" where
  "scan_results enc dec tc min_profit [] st = Ok st"
| "scan_results enc dec tc min_profit (c # cs) st =
     bind_outcome (scan_one enc dec tc min_profit c st) (scan_results enc dec tc min_profit cs)"

text \<open>\<open>None\<close> when the loop over amounts does not end.\<close>

definition scan_all_tokens ::
  "encoder \<Rightarrow> decoder \<Rightarrow> ('f \<Rightarrow> u64) \<Rightarrow> (nat \<Rightarrow> triple list \<Rightarrow> completion list) \<Rightarrow> string list \<Rightarrow>
   'f config \<Rightarrow> pipeline_state \<Rightarrow> token_metrics \<Rightarrow> (unit, scan_state) outcome option" where
  "scan_all_tokens enc dec lamports buffer_unordered token_mints cfg p tm =
     (let trading = cfg_trading cfg;
          min_lamports = lamports (tc_min_amount_sol trading);
          max_lamports = lamports (tc_max_amount_sol trading);
          step_lamports = lamports (tc_step_sol trading)
      in map_option
           (\<lambda>pairs. scan_results enc dec (cfg_template_cache cfg) (tc_min_profit_lamports trading)
              (buffer_unordered (max_concurrent (pc_max_concurrent_quotes (cfg_performance cfg)) pairs) pairs)
              (p, tm, []))
           (all_pairs token_mints min_lamports max_lamports step_lamports))"

subsection \<open>One completion\<close>

lemma quote_check_counters:
  assumes "quote_check quote mint a d mp m tm = (m', tm', r)"
  shows "queue_in m' = queue_in m \<and> scan_drops m' = scan_drops m \<and>
    metis_resp_ok m' = metis_resp_ok m + (if r = None then 0 else 1)"
  using assms
  by (auto simp: quote_check_def judge_quotes_def Let_def scan_drops_def
      split: outcome.splits option.splits if_splits)

lemma scan_pair_funnel:
  assumes "scan_pair enc dec tc now pair p = Ok (p', job)"
  shows "metis_resp_ok (ps_metrics p') = metis_resp_ok (ps_metrics p) \<and>
    queue_in (ps_metrics p') + scan_drops (ps_metrics p') + (if job = None then 0 else 1) =
      queue_in (ps_metrics p) + scan_drops (ps_metrics p) + 1"
  using assms
proof (cases rule: scan_pair_cases)
  case (served p1 ixs)
  then show ?thesis by (auto simp: looked_def served_def push_to_queue_def Let_def scan_drops_def)
next
  case (unserved p1 merged)
  then show ?thesis by (auto simp: looked_def tier3_def Let_def scan_drops_def split: if_splits)
qed (auto simp: scan_drops_def)

text \<open>What is left of the funnel: answers that were profitable but neither queued, nor dropped, nor
  requested.\<close>

definition funnel :: "scan_state \<Rightarrow> u64" where
  "funnel = (\<lambda>(p, tm, jobs). metis_resp_ok (ps_metrics p) - queue_in (ps_metrics p) -
     scan_drops (ps_metrics p) - of_nat (length jobs))"

lemma scan_one_cases:
  assumes "scan_one enc dec tc mp ((a, mint, d), quote, now) (p, tm, jobs) = Ok st"
  obtains (checked) m tm' where "quote_check quote mint a d mp (ps_metrics p) tm = (m, tm', None)"
      "st = (p\<lparr>ps_metrics := m\<rparr>, tm', jobs)"
    | (found) m tm' pair p' job where
      "quote_check quote mint a d mp (ps_metrics p) tm = (m, tm', Some pair)"
      "scan_pair enc dec tc now pair (p\<lparr>ps_metrics := m\<rparr>) = Ok (p', job)"
      "st = (p', tm', case job of None \<Rightarrow> jobs | Some j \<Rightarrow> j # jobs)"
proof -
  obtain m tm' r where q: "quote_check quote mint a d mp (ps_metrics p) tm = (m, tm', r)"
    by (metis prod_cases3)
  show ?thesis
  proof (cases r)
    case None
    with assms q show ?thesis by (intro checked) (auto simp: scan_one_def)
  next
    case (Some pair)
    with assms q show ?thesis by (auto simp: scan_one_def outcome_simps intro: found)
  qed
qed

lemma scan_one_total:
  assumes "store_inv dec (ps_store p)" and "decodes_small dec"
  shows "\<exists>p' tm' jobs'. scan_one enc dec tc mp c (p, tm, jobs) = Ok (p', tm', jobs') \<and>
    store_inv dec (ps_store p')"
proof -
  obtain a mint d quote now where c: "c = ((a, mint, d), quote, now)" by (metis prod.exhaust)
  obtain m tm' r where q: "quote_check quote mint a d mp (ps_metrics p) tm = (m, tm', r)"
    by (metis prod_cases3)
  show ?thesis
  proof (cases r)
    case None
    with q assms(1) show ?thesis by (auto simp: c scan_one_def)
  next
    case (Some pair)
    have inv: "store_inv dec (ps_store (p\<lparr>ps_metrics := m\<rparr>))" using assms(1) by simp
    obtain p' job where r: "scan_pair enc dec tc now pair (p\<lparr>ps_metrics := m\<rparr>) = Ok (p', job)"
      using scan_pair_total [OF inv assms(2)] by blast
    obtain ops where "ps_store p' = fold (run_op dec) ops (ps_store (p\<lparr>ps_metrics := m\<rparr>))"
      using scan_pair_store [OF r] ..
    then have "store_inv dec (ps_store p')" using fold_run_op_keeps(1) [OF inv] by simp
    with q Some r show ?thesis by (auto simp: c scan_one_def)
  qed
qed

lemma scan_one_funnel:
  assumes "scan_one enc dec tc mp c st = Ok st'"
  shows "funnel st' = funnel st"
proof -
  obtain a mint d quote now where c: "c = ((a, mint, d), quote, now)" by (metis prod.exhaust)
  obtain p tm jobs where st: "st = (p, tm, jobs)" by (metis prod.exhaust)
  from assms [unfolded c st] show ?thesis
  proof (cases rule: scan_one_cases)
    case (checked m tm')
    with quote_check_counters [OF checked(1)] show ?thesis by (simp add: st funnel_def)
  next
    case (found m tm' pair p' job)
    from scan_pair_funnel [OF found(2)] quote_check_counters [OF found(1)] found(3)
    show ?thesis by (cases job) (auto simp: st funnel_def algebra_simps)
  qed
qed

lemma scan_one_tokens:
  assumes "scan_one enc dec tc mp ((a, mint, d), quote, now) (p, tm, jobs) = Ok (p', tm', jobs')"
  obtains f where "f \<in> {fail_stat, judged_stat True, judged_stat False}"
    "tm' = bump_stat (tm_get tm mint) f tm"
  using assms
proof (cases rule: scan_one_cases)
  case (checked m tm1)
  then show ?thesis
    using quote_check_tokens [of quote mint a d mp "ps_metrics p" tm] that by (metis fst_conv prod.inject snd_conv)
next
  case (found m tm1 pair p1 job)
  then show ?thesis
    using quote_check_tokens [of quote mint a d mp "ps_metrics p" tm] that by (metis fst_conv prod.inject snd_conv)
qed

subsection \<open>A cycle\<close>

lemma scan_results_total:
  assumes "store_inv dec (ps_store p)" and "decodes_small dec"
  shows "\<exists>p' tm' jobs'. scan_results enc dec tc mp cs (p, tm, jobs) = Ok (p', tm', jobs') \<and>
    store_inv dec (ps_store p')"
  using assms(1)
proof (induction cs arbitrary: p tm jobs)
  case (Cons c cs)
  obtain p1 tm1 jobs1 where one: "scan_one enc dec tc mp c (p, tm, jobs) = Ok (p1, tm1, jobs1)"
    and inv: "store_inv dec (ps_store p1)"
    using scan_one_total [OF Cons.prems assms(2)] by blast
  show ?case using Cons.IH [OF inv] by (simp add: one)
qed simp

lemma scan_results_funnel:
  "scan_results enc dec tc mp cs st = Ok st' \<Longrightarrow> funnel st' = funnel st"
proof (induction cs arbitrary: st)
  case (Cons c cs)
  then obtain st1 where "scan_one enc dec tc mp c st = Ok st1"
    "scan_results enc dec tc mp cs st1 = Ok st'" by (auto simp: outcome_simps)
  then show ?case using Cons.IH scan_one_funnel by metis
qed simp

text \<open>The number of requests counted for the \<open>i\<close>-th token.\<close>

definition checks_of :: "token_metrics \<Rightarrow> nat \<Rightarrow> triple list \<Rightarrow> nat" where
  "checks_of tm i ts = length (filter (\<lambda>(_, mint, _). tm_get tm mint = Some i) ts)"

lemma checks_of_mset: "mset ts = mset ts' \<Longrightarrow> checks_of tm i ts = checks_of tm i ts'"
  by (metis checks_of_def mset_filter size_mset)

lemma scan_results_tokens:
  assumes "scan_results enc dec tc mp cs (p, tm, jobs) = Ok (p', tm', jobs')"
  shows "length (tm_stats tm') = length (tm_stats tm) \<and>
    (\<forall>i < length (tm_stats tm). q_sent (tm_stats tm' ! i) =
       q_sent (tm_stats tm ! i) + 2 * of_nat (checks_of tm i (map fst cs)))"
  using assms
proof (induction cs arbitrary: p tm jobs)
  case (Cons c cs)
  obtain a mint d quote now where c: "c = ((a, mint, d), quote, now)" by (metis prod.exhaust)
  from Cons.prems obtain p1 tm1 jobs1 where one: "scan_one enc dec tc mp c (p, tm, jobs) = Ok (p1, tm1, jobs1)"
    and rest: "scan_results enc dec tc mp cs (p1, tm1, jobs1) = Ok (p', tm', jobs')"
    by (auto simp: outcome_simps)
  obtain f where f: "f \<in> {fail_stat, judged_stat True, judged_stat False}"
    and tm1: "tm1 = bump_stat (tm_get tm mint) f tm" using scan_one_tokens one [unfolded c] .
  have "q_sent (f s) = q_sent s + 2" for s using f stat_ok_updates by auto
  then have "q_sent (tm_stats tm1 ! i) = q_sent (tm_stats tm ! i) + (if tm_get tm mint = Some i then 2 else 0)"
    if "i < length (tm_stats tm)" for i
    using that by (auto simp: tm1 bump_stat_def nth_list_update split: option.split)
  moreover have "length (tm_stats tm1) = length (tm_stats tm)" "tm_get tm1 = tm_get tm"
    by (simp_all add: tm1 fun_eq_iff)
  ultimately show ?case
    using Cons.IH [OF rest] by (simp add: c checks_of_def algebra_simps)
qed (simp add: checks_of_def)

text \<open>Steps of the machine of theory \<open>Pipeline\<close>.\<close>

lemma quote_step:
  "step enc dec tc env s (s\<lparr>mc_bot := (mc_bot s)\<lparr>bt_pipe := (bt_pipe (mc_bot s))\<lparr>ps_metrics :=
     fst (quote_check qf mint a d mp (ps_metrics (bt_pipe (mc_bot s))) tm)\<rparr>\<rparr>\<rparr>)"
  using step.quote [of enc dec tc env s qf mint a d mp tm] by (simp add: map_metrics_def map_pipe_def)

lemma scan_one_steps:
  assumes "scan_one enc dec tc mp c (bt_pipe (mc_bot s), tm, jobs) = Ok (p', tm', jobs')"
  shows "\<exists>js. jobs' = js @ jobs \<and> (step enc dec tc env)\<^sup>*\<^sup>* s
    (s\<lparr>mc_bot := (mc_bot s)\<lparr>bt_pipe := p'\<rparr>, mc_jobs := js @ mc_jobs s\<rparr>)"
proof -
  obtain a mint d quote now where c: "c = ((a, mint, d), quote, now)" by (metis prod.exhaust)
  let ?m = "ps_metrics (bt_pipe (mc_bot s))"
  let ?s = "\<lambda>m. s\<lparr>mc_bot := (mc_bot s)\<lparr>bt_pipe := (bt_pipe (mc_bot s))\<lparr>ps_metrics := m\<rparr>\<rparr>\<rparr>"
  from assms [unfolded c] show ?thesis
  proof (cases rule: scan_one_cases)
    case (checked m tm1)
    have "step enc dec tc env s (?s m)"
      using quote_step [of enc dec tc env s quote mint a d mp tm] checked(1) by simp
    with checked(2) show ?thesis by (auto intro!: exI [of _ "[]"] r_into_rtranclp)
  next
    case (found m tm1 pair p1 job)
    have one: "step enc dec tc env s (?s m)"
      using quote_step [of enc dec tc env s quote mint a d mp tm] found(1) by simp
    have "scan_pair enc dec tc now pair (bt_pipe (mc_bot (?s m))) = Ok (p', job)"
      using found(2,3) by simp
    from step.scan [OF this, of env] have two: "step enc dec tc env (?s m)
        (s\<lparr>mc_bot := (mc_bot s)\<lparr>bt_pipe := p'\<rparr>,
           mc_jobs := (case job of None \<Rightarrow> mc_jobs s | Some j \<Rightarrow> j # mc_jobs s)\<rparr>)"
      by (cases job) simp_all
    have "(step enc dec tc env)\<^sup>*\<^sup>* s (s\<lparr>mc_bot := (mc_bot s)\<lparr>bt_pipe := p'\<rparr>,
           mc_jobs := (case job of None \<Rightarrow> mc_jobs s | Some j \<Rightarrow> j # mc_jobs s)\<rparr>)"
      using one two by (meson r_into_rtranclp rtranclp.rtrancl_into_rtrancl)
    with found(3) show ?thesis
      by (cases job) (auto intro: exI [of _ "[]"] exI [of _ "[the job]"])
  qed
qed

lemma scan_results_steps:
  assumes "scan_results enc dec tc mp cs (bt_pipe (mc_bot s), tm, jobs) = Ok (p', tm', jobs')"
  shows "\<exists>js. jobs' = js @ jobs \<and> (step enc dec tc env)\<^sup>*\<^sup>* s
    (s\<lparr>mc_bot := (mc_bot s)\<lparr>bt_pipe := p'\<rparr>, mc_jobs := js @ mc_jobs s\<rparr>)"
  using assms
proof (induction cs arbitrary: s tm jobs)
  case (Cons c cs)
  from Cons.prems obtain p1 tm1 jobs1 where
    one: "scan_one enc dec tc mp c (bt_pipe (mc_bot s), tm, jobs) = Ok (p1, tm1, jobs1)"
    and rest: "scan_results enc dec tc mp cs (p1, tm1, jobs1) = Ok (p', tm', jobs')"
    by (auto simp: outcome_simps)
  obtain js1 where 1: "jobs1 = js1 @ jobs" "(step enc dec tc env)\<^sup>*\<^sup>* s
      (s\<lparr>mc_bot := (mc_bot s)\<lparr>bt_pipe := p1\<rparr>, mc_jobs := js1 @ mc_jobs s\<rparr>)"
    using scan_one_steps [OF one] by blast
  let ?s1 = "s\<lparr>mc_bot := (mc_bot s)\<lparr>bt_pipe := p1\<rparr>, mc_jobs := js1 @ mc_jobs s\<rparr>"
  obtain js2 where 2: "jobs' = js2 @ jobs1" "(step enc dec tc env)\<^sup>*\<^sup>* ?s1
      (s\<lparr>mc_bot := (mc_bot s)\<lparr>bt_pipe := p'\<rparr>, mc_jobs := js2 @ js1 @ mc_jobs s\<rparr>)"
    using Cons.IH [of ?s1 tm1 jobs1] rest by auto
  from 1 2 show ?case
    by (intro exI [of _ "js2 @ js1"]) (auto intro: rtranclp_trans)
qed (auto intro!: exI [of _ "[]"])

lemma scan_all_tokens_total:
  assumes "0 < lamports (tc_step_sol (cfg_trading cfg))"
    and "unat (lamports (tc_max_amount_sol (cfg_trading cfg))) +
      unat (lamports (tc_step_sol (cfg_trading cfg))) < 2 ^ 64"
    and "lamports (tc_min_amount_sol (cfg_trading cfg)) \<le> lamports (tc_max_amount_sol (cfg_trading cfg))"
    and "store_inv dec (ps_store p)" and "decodes_small dec"
  shows "\<exists>p' tm' jobs. scan_all_tokens enc dec lamports bu tokens cfg p tm = Some (Ok (p', tm', jobs)) \<and>
    store_inv dec (ps_store p')"
proof -
  obtain pairs where "all_pairs tokens (lamports (tc_min_amount_sol (cfg_trading cfg)))
      (lamports (tc_max_amount_sol (cfg_trading cfg))) (lamports (tc_step_sol (cfg_trading cfg))) = Some pairs"
    using all_pairs_total [OF assms(1-3)] by blast
  with scan_results_total [OF assms(4,5)] show ?thesis by (simp add: scan_all_tokens_def Let_def)
qed

lemma scan_all_tokens_run:
  assumes "reachable enc dec (cfg_template_cache cfg) env s0 s"
    and "scan_all_tokens enc dec lamports buffer_unordered tokens cfg (bt_pipe (mc_bot s)) tm =
      Some (Ok (p', tm', jobs))"
  shows "reachable enc dec (cfg_template_cache cfg) env s0
    (s\<lparr>mc_bot := (mc_bot s)\<lparr>bt_pipe := p'\<rparr>, mc_jobs := jobs @ mc_jobs s\<rparr>)"
proof -
  from assms(2) obtain cs where "scan_results enc dec (cfg_template_cache cfg)
      (tc_min_profit_lamports (cfg_trading cfg)) cs (bt_pipe (mc_bot s), tm, []) = Ok (p', tm', jobs)"
    by (auto simp: scan_all_tokens_def Let_def)
  from scan_results_steps [OF this] have "(step enc dec (cfg_template_cache cfg) env)\<^sup>*\<^sup>* s
    (s\<lparr>mc_bot := (mc_bot s)\<lparr>bt_pipe := p'\<rparr>, mc_jobs := jobs @ mc_jobs s\<rparr>)" by auto
  with assms(1) show ?thesis by (simp add: reachable_rtranclp)
qed

subsection \<open>Properties\<close>


text \<open>Completions in the order of the triples, all with the same answers at the same instant.\<close>

definition in_order :: "nat \<Rightarrow> triple list \<Rightarrow> completion list" where
  "in_order n ts = map (\<lambda>t. (t, sample_quotes, 5)) ts"

text \<open>A configuration whose amounts are given in lamports: three amounts, a profit of 3.\<close>

definition cycle_config :: "u64 config" where
  "cycle_config =
     \<lparr>cfg_metis = \<lparr>mc_url = [], mc_binary_key = []\<rparr>,
      cfg_trading = \<lparr>tc_min_amount_sol = 1, tc_max_amount_sol = 3, tc_step_sol = 1,
        tc_min_profit_lamports = 3, tc_base_fee_lamports = 0, tc_tokens_file = []\<rparr>,
      cfg_jito = \<lparr>jc_urls = [], jc_uuid = [], jc_trading_keypair = [], jc_tip_min_lamports = 0,
        jc_tip_max_lamports = 0, jc_tip_profit_percent = 0, jc_max_bundles_per_second = 5\<rparr>,
      cfg_rpc = \<lparr>rc_url = []\<rparr>, cfg_yellowstone_grpc = \<lparr>yc_endpoint = [], yc_x_token = []\<rparr>,
      cfg_performance = \<lparr>pc_threads = 1, pc_quote_timeout_ms = 1, pc_cu_limits = [],
        pc_max_concurrent_quotes = 1, pc_calc_workers = 1, pc_queue_max_age_ms = 1000,
        pc_bot_cpu_cores = []\<rparr>,
      cfg_simulation = default_simulation_config, cfg_jito_grpc = default_jito_grpc_config,
      cfg_template_cache = serving_config\<rparr>"


end
