(* ===== verification/Subscription.thy ===== *)
theory Subscription
  imports Caches
begin

text \<open>
  The subscription task of \<open>src/src/account_cache.rs\<close>: one session connects, subscribes with the
  filters of theory \<open>Caches\<close> and reads the stream; \<open>spawn_subscription\<close> runs sessions for ever,
  sleeping longer and longer between them.  The gRPC service of each session is an argument: it
  may refuse the connection or the subscription, and otherwise delivers messages.
\<close>

text \<open>The request: the filters of accounts and the level, all other filters empty.  The filters that
  the code leaves empty are represented by their names.\<close>

datatype commitment_level = Processed

record subscribe_request =
  sr_slots :: "string list"
  sr_accounts :: "(string, accounts_filter) hmap"
  sr_transactions :: "string list"
  sr_transactions_status :: "string list"
  sr_entry :: "string list"
  sr_blocks :: "string list"
  sr_blocks_meta :: "string list"
  sr_commitment :: "commitment_level option"
  sr_accounts_data_slice :: "(nat \<times> nat) list"
  sr_ping :: "int option"
  sr_from_slot :: "u64 option"

definition account_request :: "(pubkey \<Rightarrow> string) \<Rightarrow> string list \<Rightarrow> pubkey list \<Rightarrow> subscribe_request" where
  "account_request to_text dex_program_ids extra_accounts =
     \<lparr>sr_slots = [], sr_accounts = accounts_filters to_text dex_program_ids extra_accounts,
      sr_transactions = [], sr_transactions_status = [], sr_entry = [], sr_blocks = [],
      sr_blocks_meta = [], sr_commitment = Some Processed, sr_accounts_data_slice = [],
      sr_ping = None, sr_from_slot = None\<rparr>"

datatype stream_error = ConnectFailed | SubscribeFailed | StreamYieldedError

record 'c geyser =
  gy_connect :: "string \<Rightarrow> string \<Rightarrow> 'c option"
  gy_subscribe :: "'c \<Rightarrow> subscribe_request \<Rightarrow> stream_msg list option"

record subscription =
  sub_endpoint :: string
  sub_x_token :: string
  sub_dex_program_ids :: "string list"
  sub_extra_accounts :: "pubkey list"

definition run_session ::
  "(pubkey \<Rightarrow> string) \<Rightarrow> subscription \<Rightarrow> 'c geyser \<Rightarrow> account_cache \<Rightarrow>
   account_cache \<times> (stream_error, unit) outcome" where
  "run_session to_text sub g c =
     (case gy_connect g (sub_endpoint sub) (sub_x_token sub) of
        None \<Rightarrow> (c, Err ConnectFailed)
      | Some client \<Rightarrow>
          (case gy_subscribe g client
                  (account_request to_text (sub_dex_program_ids sub) (sub_extra_accounts sub)) of
             None \<Rightarrow> (c, Err SubscribeFailed)
           | Some msgs \<Rightarrow>
               (case run_stream msgs (c, 0, 0) of
                  ((c, _, _), True) \<Rightarrow> (c, Ok ())
                | ((c, _, _), False) \<Rightarrow> (c, Err StreamYieldedError))))"

text \<open>The task: after every session, whatever its result, it sleeps and starts the next.  The
  milliseconds slept are listed.\<close>

fun subscription_loop ::
  "(pubkey \<Rightarrow> string) \<Rightarrow> subscription \<Rightarrow> 'c geyser list \<Rightarrow> nat \<Rightarrow> account_cache \<Rightarrow>
   account_cache \<times> nat list" where
  "subscription_loop to_text sub [] backoff c = (c, [])"
| "subscription_loop to_text sub (g # gs) backoff c =
     (let (c, _) = run_session to_text sub g c;
          (c, slept) = subscription_loop to_text sub gs (next_backoff backoff) c
      in (c, backoff # slept))"

subsection \<open>What a session delivers\<close>

definition delivered :: "(pubkey \<Rightarrow> string) \<Rightarrow> subscription \<Rightarrow> 'c geyser \<Rightarrow> stream_msg list" where
  "delivered to_text sub g =
     (case Option.bind (gy_connect g (sub_endpoint sub) (sub_x_token sub)) (\<lambda>client.
        gy_subscribe g client
          (account_request to_text (sub_dex_program_ids sub) (sub_extra_accounts sub))) of
        None \<Rightarrow> [] | Some msgs \<Rightarrow> until_error msgs)"

lemma run_stream_until_error:
  "fst (fst (run_stream ms (c, n, p))) = fst (fst (run_stream (until_error ms) (c, n, p)))"
  by (induction ms "(c, n, p)" arbitrary: c n p rule: run_stream.induct)
    (auto simp: Let_def split: option.split)

lemma until_error_idem [simp]: "until_error (until_error ms) = until_error ms"
  by (induction ms rule: until_error.induct) auto

lemma run_session_cache:
  "fst (run_session to_text sub g c) = fst (fst (run_stream (delivered to_text sub g) (c, 0, 0)))"
  by (auto simp: run_session_def delivered_def run_stream_until_error [symmetric]
      split: option.split prod.split bool.split)

lemma map_filter_append: "List.map_filter f (xs @ ys) = List.map_filter f xs @ List.map_filter f ys"
  by (simp add: map_filter_def)

lemma last_last_append: "last (last (x # xs) # ys) = last (x # xs @ ys)"
  by (induction ys) auto

lemma loop_cache:
  "cache_get (fst (subscription_loop to_text sub gs b c)) k =
     (case map_of (rev (List.map_filter stored (concat (map (delivered to_text sub) gs)))) k of
        Some a \<Rightarrow> Some a | None \<Rightarrow> cache_get c k)"
proof (induction gs arbitrary: b c)
  case Nil
  then show ?case by (simp add: map_filter_simps)
next
  case (Cons g gs)
  have "until_error (delivered to_text sub g) = delivered to_text sub g"
    by (simp add: delivered_def split: option.split)
  then show ?case
    using Cons.IH
    by (auto simp: case_prod_unfold Let_def run_session_cache run_stream_cache map_filter_append map_add_def
        split: option.split)
qed

lemma loop_slot:
  "cc_stream_slot (fst (subscription_loop to_text sub gs b c)) =
     last (cc_stream_slot c # List.map_filter slot_of (concat (map (delivered to_text sub) gs)))"
proof (induction gs arbitrary: b c)
  case Nil
  then show ?case by (simp add: map_filter_simps)
next
  case (Cons g gs)
  have "until_error (delivered to_text sub g) = delivered to_text sub g"
    by (simp add: delivered_def split: option.split)
  then show ?case
    using Cons.IH
    by (simp add: case_prod_unfold Let_def run_session_cache run_stream_slot map_filter_append last_last_append del: last.simps)
qed

lemma loop_slept:
  "snd (subscription_loop to_text sub gs b c) = map (\<lambda>i. (next_backoff ^^ i) b) [0..<length gs]"
proof (induction gs arbitrary: b c)
  case (Cons g gs)
  then show ?case
    by (simp add: case_prod_unfold Let_def upt_conv_Cons map_Suc_upt [symmetric] funpow_swap1 del: upt_Suc)
qed simp

subsection \<open>Properties\<close>

text \<open>C26: No failure of the service stops the account stream or damages the cache: over any
  sequence of sessions, some refused, some broken off, the cache holds for every key the last
  well-formed update delivered by any of them, or its old entry; the slot is the last one
  delivered; and the delays between sessions double from half a second up to ten seconds.\<close>

theorem stream_survives_failures:
  "cache_get (fst (subscription_loop to_text sub gs initial_backoff c)) k =
     (case map_of (rev (List.map_filter stored (concat (map (delivered to_text sub) gs)))) k of
        Some a \<Rightarrow> Some a | None \<Rightarrow> cache_get c k) \<and>
   cc_stream_slot (fst (subscription_loop to_text sub gs initial_backoff c)) =
     last (cc_stream_slot c # List.map_filter slot_of (concat (map (delivered to_text sub) gs))) \<and>
   snd (subscription_loop to_text sub gs initial_backoff c) =
     map (\<lambda>i. min (500 * 2 ^ i) 10000) [0..<length gs]"
  by (simp add: loop_cache loop_slot loop_slept backoff_closed_form)

end
