(* ===== verification/AltLoader.thy ===== *)
theory AltLoader
  imports Caches
begin

text \<open>
  The loader binary \<open>src/src/bin/alt_loader.rs\<close> with what it prints: the lines on standard output
  and standard error, and the exit status.  The texts of keys and of errors, the parser of keys
  and the RPC node behind a URL are arguments.
\<close>

record printers =
  pr_key :: "pubkey \<Rightarrow> string"
  pr_error :: "fetch_error \<Rightarrow> string"

text \<open>\<open>load_alt\<close>: the lines printed and the result.\<close>

definition load_alt_printing ::
  "parser \<Rightarrow> rpc \<Rightarrow> string \<Rightarrow> string list \<times> (fetch_error, lookup_table) outcome" where
  "load_alt_printing parse rpc alt_pubkey =
     (case parse alt_pubkey of
        None \<Rightarrow> ([], Err (AltBadKey alt_pubkey))
      | Some pk \<Rightarrow>
          (let fetching = ''['' @ alt_pubkey @ ''] Fetching ALT account...'' in
           case rpc pk of
             None \<Rightarrow> ([fetching], Err (RpcFailed pk))
           | Some a \<Rightarrow>
               (let warning = (if \<not> acc_executable a
                     then [''       WARNING: Account is not executable (might not be an ALT)''] else [])
                in case deserialize_alt_addresses (acc_data a) of
                     Ok addresses \<Rightarrow>
                       (fetching # warning @
                          [''       OK - '' @ show_nat (length addresses) @ '' addresses in table''],
                        Ok \<lparr>alt_key = pk, alt_addresses = addresses\<rparr>)
                   | Err e \<Rightarrow> (fetching # warning, Err e)
                   | Panic \<Rightarrow> (fetching # warning, Panic))))"

definition table_lines :: "printers \<Rightarrow> lookup_table \<Rightarrow> string list" where
  "table_lines pr alt =
     (''       Key: '' @ pr_key pr (alt_key alt)) #
     (if 0 < length (alt_addresses alt) \<and> length (alt_addresses alt) \<le> 5
      then ''       First few addresses:'' #
             map (\<lambda>addr. ''         - '' @ pr_key pr addr) (take 5 (alt_addresses alt))
      else [])"

text \<open>The loop over the known tables: lines, successes and failures; \<open>None\<close> for a panic.\<close>

definition load_one ::
  "printers \<Rightarrow> parser \<Rightarrow> rpc \<Rightarrow> string \<Rightarrow> (string list \<times> nat \<times> nat) option \<Rightarrow>
   (string list \<times> nat \<times> nat) option" where
  "load_one pr parse rpc alt_addr acc =
     (case acc of
        None \<Rightarrow> None
      | Some (out, success, failed) \<Rightarrow>
          (case load_alt_printing parse rpc alt_addr of
             (lines, Ok alt) \<Rightarrow> Some (out @ lines @ table_lines pr alt @ [[]], success + 1, failed)
           | (lines, Err e) \<Rightarrow>
               Some (out @ lines @ [''       FAILED: '' @ pr_error pr e, []], success, failed + 1)
           | (lines, Panic) \<Rightarrow> None))"

record loader_run =
  lr_stdout :: "string list"
  lr_stderr :: "string list"
  lr_status :: nat

definition summary_lines :: "nat \<Rightarrow> nat \<Rightarrow> string list" where
  "summary_lines success failed =
     [''=== Summary ==='',
      ''Success: '' @ show_nat success @ '', Failed: '' @ show_nat failed @ '', Total: '' @
        show_nat (length JUPITER_ALTS),
      [],
      ''Note: If you see AddressLookupTableNotFound errors in simulation,'',
      ''ensure these ALTs are being fetched and cached BEFORE simulation starts.'',
      ''The ALTs must be loaded into LiteSVM's account state via set_account().'']"

text \<open>\<open>main\<close>: \<open>args\<close> are the program's name and its arguments; without a name it panics on
  \<open>args[0]\<close>, which is the outer \<open>None\<close>, as is a panic of the loop.\<close>

definition alt_loader_main ::
  "printers \<Rightarrow> parser \<Rightarrow> (string \<Rightarrow> rpc) \<Rightarrow> string list \<Rightarrow> loader_run option" where
  "alt_loader_main pr parse rpc_new args =
     (case args of
        [] \<Rightarrow> None
      | [program] \<Rightarrow>
          Some \<lparr>lr_stdout = [],
            lr_stderr = [''Usage: '' @ program @ '' <RPC_URL>'',
                         ''Example: '' @ program @ '' https://api.mainnet-beta.solana.com''],
            lr_status = 1\<rparr>
      | program # rpc_url # _ \<Rightarrow>
          map_option (\<lambda>(out, success, failed).
              \<lparr>lr_stdout = [''=== ALT Loader Utility ==='', ''RPC: '' @ rpc_url, []] @ out @
                 summary_lines success failed,
               lr_stderr = [], lr_status = 0\<rparr>)
            (fold (load_one pr parse (rpc_new rpc_url)) JUPITER_ALTS (Some ([], 0, 0))))"

subsection \<open>Laws\<close>

lemma load_alt_printing_result: "snd (load_alt_printing parse rpc alt) = load_alt parse rpc alt"
  by (auto simp: load_alt_printing_def load_alt_def Let_def split: option.split outcome.split)

lemma load_alt_not_Panic: "load_alt parse rpc alt \<noteq> Panic"
  by (auto simp: load_alt_def outcome_simps deserialize_alt_addresses_def Let_def split: if_splits)

lemma load_one_counts:
  "\<exists>out'. load_one pr parse rpc alt (Some (out, s, f)) =
     Some (out', if is_ok (load_alt parse rpc alt) then (s + 1, f) else (s, f + 1))"
proof -
  obtain lines r where p: "load_alt_printing parse rpc alt = (lines, r)" by fastforce
  then have r: "r = load_alt parse rpc alt" using load_alt_printing_result [of parse rpc alt] by simp
  with load_alt_not_Panic have "r \<noteq> Panic" by simp
  with p show ?thesis unfolding r [symmetric] by (cases r) (auto simp: load_one_def)
qed

lemma fold_load_one_counts:
  "\<exists>out'. fold (load_one pr parse rpc) alts (Some (out, s, f)) =
     Some (out', s + length (filter (\<lambda>a. is_ok (load_alt parse rpc a)) alts),
       f + length (filter (\<lambda>a. \<not> is_ok (load_alt parse rpc a)) alts))"
proof (induction alts arbitrary: out s f)
  case (Cons alt alts)
  obtain out1 where "load_one pr parse rpc alt (Some (out, s, f)) =
      Some (out1, if is_ok (load_alt parse rpc alt) then (s + 1, f) else (s, f + 1))"
    using load_one_counts by blast
  then show ?case
    using Cons.IH [of out1 "if is_ok (load_alt parse rpc alt) then s + 1 else s"
        "if is_ok (load_alt parse rpc alt) then f else f + 1"] by (auto split: if_splits)
qed simp

text \<open>A lookup table is never executable, so the loader warns about every one that it loads.\<close>

lemma warns_about_genuine_tables:
  assumes "parse alt = Some pk" and "rpc pk = Some a" and "\<not> acc_executable a"
  shows "''       WARNING: Account is not executable (might not be an ALT)'' \<in>
    set (fst (load_alt_printing parse rpc alt))"
  using assms by (simp add: load_alt_printing_def Let_def split: outcome.split)

text \<open>The loader never fails because of what it loads: without a URL it prints how to use it and
  exits with status 1; with one it exits with status 0, and its summary counts each known
  table once, as loaded or as failed, whatever the node answers.\<close>

theorem loader_counts_every_table:
  "map_option lr_status (alt_loader_main pr parse rpc_new [program]) = Some 1 \<and>
   (\<exists>out s f. alt_loader_main pr parse rpc_new (program # url # rest) =
      Some \<lparr>lr_stdout = out @ summary_lines s f, lr_stderr = [], lr_status = 0\<rparr> \<and>
    s = length (filter (\<lambda>a. is_ok (load_alt parse (rpc_new url) a)) JUPITER_ALTS) \<and>
    s + f = length JUPITER_ALTS)"
proof -
  let ?s = "length (filter (\<lambda>a. is_ok (load_alt parse (rpc_new url) a)) JUPITER_ALTS)"
    and ?f = "length (filter (\<lambda>a. \<not> is_ok (load_alt parse (rpc_new url) a)) JUPITER_ALTS)"
  obtain out where run: "fold (load_one pr parse (rpc_new url)) JUPITER_ALTS (Some ([], 0, 0)) =
     Some (out, ?s, ?f)"
    using fold_load_one_counts [of pr parse "rpc_new url" JUPITER_ALTS "[]" 0 0] by auto
  have "?s + ?f = length JUPITER_ALTS" by (rule sum_length_filter_compl)
  moreover have "alt_loader_main pr parse rpc_new (program # url # rest) =
      Some \<lparr>lr_stdout = ([''=== ALT Loader Utility ==='', ''RPC: '' @ url, []] @ out) @
        summary_lines ?s ?f, lr_stderr = [], lr_status = 0\<rparr>"
    by (simp add: alt_loader_main_def run)
  ultimately show ?thesis by (fastforce simp: alt_loader_main_def [of _ _ _ "[program]"])
qed

end
