(* ===== verification/Wallet.thy ===== *)
theory Wallet
  imports Prelude
begin

text \<open>
  \<open>src/src/wallet.rs\<close>: reading a keypair from a JSON file of bytes.  The file system, the JSON
  reader and the SDK's construction of a keypair are arguments.
\<close>

datatype keypair_error = KeyFileUnreadable | KeyFileNotJson | KeyBytesInvalid

record 'k key_source =
  ks_read_to_string :: "string \<Rightarrow> string option"
  ks_json_bytes :: "string \<Rightarrow> bytes option"
  ks_from_bytes :: "bytes \<Rightarrow> 'k option"

definition read_keypair :: "'k key_source \<Rightarrow> string \<Rightarrow> (keypair_error, 'k) outcome" where
  "read_keypair ks path =
     bind_outcome (of_option KeyFileUnreadable (ks_read_to_string ks path)) (\<lambda>data.
     bind_outcome (of_option KeyFileNotJson (ks_json_bytes ks data)) (\<lambda>bs.
       of_option KeyBytesInvalid (ks_from_bytes ks bs)))"

lemma read_keypair_Ok [outcome_simps]:
  "read_keypair ks path = Ok k \<longleftrightarrow>
     (\<exists>data bs. ks_read_to_string ks path = Some data \<and> ks_json_bytes ks data = Some bs \<and>
        ks_from_bytes ks bs = Some k)"
  by (auto simp: read_keypair_def outcome_simps)

lemma read_keypair_not_Panic: "read_keypair ks path \<noteq> Panic"
  by (auto simp: read_keypair_def outcome_simps)

end
