(* ===== verification/Boot.thy ===== *)
theory Boot
  imports Restarts ScanCycle Subscription AltLoader Wallet
begin

text \<open>
  The whole of \<open>main\<close> (\<open>src/src/main.rs\<close>): the start-up with its errors, the gRPC client as
  \<open>JitoGrpcClient::new\<close> builds it, the subscription the simulators listen to, and the endless
  loop over scan cycles.
\<close>

subsection \<open>The gRPC client\<close>

datatype grpc_new_error = GrpcKeypair string keypair_error | NoRegions

definition grpc_client_new ::
  "'k key_source \<Rightarrow> (string \<Rightarrow> bool) \<Rightarrow> ('k \<Rightarrow> string \<Rightarrow> (auth_error, tokens) outcome) \<Rightarrow>
   string list \<Rightarrow> string \<Rightarrow> (grpc_new_error, region list) outcome" where
  "grpc_client_new ks connects auth endpoints keypair_path =
     (case read_keypair ks keypair_path of
        Ok keypair \<Rightarrow>
          (case connect_all connects (auth keypair) endpoints of
             Ok (regions, _, _) \<Rightarrow> Ok regions
           | Err _ \<Rightarrow> Err NoRegions
           | Panic \<Rightarrow> Panic)
      | Err e \<Rightarrow> Err (GrpcKeypair keypair_path e)
      | Panic \<Rightarrow> Panic)"

subsection \<open>Start-up\<close>

datatype start_error =
    ConfigFailed load_error | TokensFailed load_error | WalletFailed keypair_error
  | SimulationFailed sim_error

fun map_error :: "('e \<Rightarrow> 'd) \<Rightarrow> ('e, 'a) outcome \<Rightarrow> ('d, 'a) outcome" where
  "map_error f (Ok x) = Ok x"
| "map_error f (Err e) = Err (f e)"
| "map_error f Panic = Panic"

text \<open>What the process finds outside: files, the node, the gRPC regions, the virtual machine.\<close>

record ('k, 'f, 't, 's, 'x) world =
  wo_keys :: "'k key_source"
  wo_pubkey :: "'k \<Rightarrow> pubkey"
  wo_toml :: "string \<Rightarrow> 'f config option"
  wo_serde :: "'t serde"
  wo_fs :: "'t fs"
  wo_parse :: parser
  wo_rpc :: rpc
  wo_slot :: "u64 option"
  wo_blockhash :: "bytes option"
  wo_ata :: "pubkey \<Rightarrow> pubkey \<Rightarrow> pubkey"
  wo_wsol_mint :: pubkey
  wo_region_reachable :: "string \<Rightarrow> bool"
  wo_auth :: "'k \<Rightarrow> string \<Rightarrow> (auth_error, tokens) outcome"
  wo_pool_toml :: "string \<Rightarrow> pool_file option"
  wo_dex_dir :: "string \<Rightarrow> dex_listing"
  wo_file_exists :: "string \<Rightarrow> bool"
  wo_vm :: "('s, 'x) vm_ops"

record ('k, 'f, 's) running =
  ru_config :: "'f config"
  ru_tokens :: "string list"
  ru_keypair :: 'k
  ru_machine :: machine
  ru_grpc_regions :: "region list option"
  ru_simulation :: "(account_cache \<times> 's simulator_pool) option"
  ru_subscription :: "subscription option"

definition connect_grpc ::
  "('k, 'f, 't, 's, 'x) world \<Rightarrow> string list \<Rightarrow> string \<Rightarrow> (grpc_new_error, region list) outcome" where
  "connect_grpc w = grpc_client_new (wo_keys w) (wo_region_reachable w) (wo_auth w)"

definition simulation_subscription ::
  "('k, 'f, 't, 's, 'x) world \<Rightarrow> pubkey \<Rightarrow> 'f config \<Rightarrow> subscription option" where
  "simulation_subscription w wsol_ata cfg =
     (if sc_enabled (cfg_simulation cfg)
      then Some \<lparr>sub_endpoint = yc_endpoint (cfg_yellowstone_grpc cfg),
                 sub_x_token = yc_x_token (cfg_yellowstone_grpc cfg),
                 sub_dex_program_ids = all_program_ids,
                 sub_extra_accounts = live_extra wsol_ata
                   (load_dex_pools (wo_parse w) (wo_pool_toml w)
                      (wo_dex_dir w (sc_dex_dir (cfg_simulation cfg))))\<rparr>
      else None)"

definition async_main ::
  "('k, 'f, 't, 's, 'x) world \<Rightarrow> 'f config \<Rightarrow> (start_error, ('k, 'f, 's) running) outcome" where
  "async_main w cfg =
     bind_outcome (map_error TokensFailed
       (load_tokens (ks_read_to_string (wo_keys w)) (tc_tokens_file (cfg_trading cfg)))) (\<lambda>token_mints.
     bind_outcome (map_error WalletFailed
       (read_keypair (wo_keys w) (jc_trading_keypair (cfg_jito cfg)))) (\<lambda>keypair.
     let wallet = wo_pubkey w keypair;
         wsol_ata = wo_ata w wallet (wo_wsol_mint w);
         machine = start_machine (wo_serde w) (wo_fs w) (wo_parse w) (connect_grpc w) (wo_blockhash w) cfg
     in bind_outcome (map_error SimulationFailed
          (setup_simulation (wo_vm w) (wo_parse w) (wo_file_exists w) (wo_rpc w) (wo_slot w) (wo_ata w)
             (wo_pool_toml w) (wo_dex_dir w) wallet (wo_wsol_mint w) token_mints (cfg_simulation cfg)))
          (\<lambda>sim. Ok \<lparr>ru_config = cfg, ru_tokens = token_mints, ru_keypair = keypair,
                     ru_machine = machine,
                     ru_grpc_regions = fst (grpc_setup (connect_grpc w) (cfg_jito_grpc cfg)),
                     ru_simulation = sim,
                     ru_subscription = simulation_subscription w wsol_ata cfg\<rparr>)))"

definition main_start ::
  "('k, 'f, 't, 's, 'x) world \<Rightarrow> (start_error, ('k, 'f, 's) running) outcome" where
  "main_start w =
     bind_outcome (map_error ConfigFailed
       (load_config (ks_read_to_string (wo_keys w)) (wo_toml w) ''config.toml'')) (async_main w)"

text \<open>The loop of \<open>async_main\<close>: one cycle after another, each with its own completions.  An error of
  a cycle would be logged and the loop would go on.\<close>

fun scan_loop ::
  "encoder \<Rightarrow> decoder \<Rightarrow> ('f \<Rightarrow> u64) \<Rightarrow> string list \<Rightarrow> 'f config \<Rightarrow>
   (nat \<Rightarrow> triple list \<Rightarrow> completion list) list \<Rightarrow> machine \<times> token_metrics \<Rightarrow>
   (unit, machine \<times> token_metrics) outcome option" where
  "scan_loop enc dec lamports token_mints cfg [] st = Some (Ok st)"
| "scan_loop enc dec lamports token_mints cfg (bu # bus) (s, tm) =
     (case scan_all_tokens enc dec lamports bu token_mints cfg (bt_pipe (mc_bot s)) tm of
        None \<Rightarrow> None
      | Some Panic \<Rightarrow> Some Panic
      | Some (Err _) \<Rightarrow> scan_loop enc dec lamports token_mints cfg bus (s, tm)
      | Some (Ok (p, tm, jobs)) \<Rightarrow>
          scan_loop enc dec lamports token_mints cfg bus
            (s\<lparr>mc_bot := (mc_bot s)\<lparr>bt_pipe := p\<rparr>, mc_jobs := jobs @ mc_jobs s\<rparr>, tm))"

subsection \<open>Laws\<close>

lemma map_error_simps [outcome_simps]:
  "map_error f r = Ok x \<longleftrightarrow> r = Ok x"
  "map_error f r = Panic \<longleftrightarrow> r = Panic"
  "map_error f r = Err d \<longleftrightarrow> (\<exists>e. r = Err e \<and> d = f e)"
  by (cases r; auto)+

lemma async_main_Ok:
  "async_main w cfg = Ok run \<longleftrightarrow>
     (\<exists>token_mints keypair sim.
        load_tokens (ks_read_to_string (wo_keys w)) (tc_tokens_file (cfg_trading cfg)) = Ok token_mints \<and>
        read_keypair (wo_keys w) (jc_trading_keypair (cfg_jito cfg)) = Ok keypair \<and>
        setup_simulation (wo_vm w) (wo_parse w) (wo_file_exists w) (wo_rpc w) (wo_slot w) (wo_ata w)
          (wo_pool_toml w) (wo_dex_dir w) (wo_pubkey w keypair) (wo_wsol_mint w) token_mints
          (cfg_simulation cfg) = Ok sim \<and>
        run = \<lparr>ru_config = cfg, ru_tokens = token_mints, ru_keypair = keypair,
          ru_machine = start_machine (wo_serde w) (wo_fs w) (wo_parse w) (connect_grpc w) (wo_blockhash w) cfg,
          ru_grpc_regions = fst (grpc_setup (connect_grpc w) (cfg_jito_grpc cfg)),
          ru_simulation = sim,
          ru_subscription = simulation_subscription w (wo_ata w (wo_pubkey w keypair) (wo_wsol_mint w)) cfg\<rparr>)"
  by (auto simp: async_main_def Let_def outcome_simps)

lemma new_simulator_total:
  assumes "\<forall>pid \<in> set all_program_ids. parse pid \<noteq> None"
  shows "\<exists>sim. new_simulator ops parse ex so_dir wsol_ata fc slot = Ok sim"
proof -
  have "parse pid \<noteq> None" if "(pid, f) \<in> set PROGRAMS" for pid f
    using assms that by (force simp: all_program_ids_def)
  then have "\<exists>svm l m. load_programs ops parse ex so_dir PROGRAMS (sv_warp ops slot (sv_new ops), 0, 0) =
      Ok (svm, l, m) \<and> l + m = 0 + 0 + length (filter (\<lambda>(_, f). f \<noteq> []) PROGRAMS)"
    by (rule load_programs_total)
  then show ?thesis by (auto simp: new_simulator_def)
qed

lemma setup_simulation_total:
  assumes "\<forall>pid \<in> set all_program_ids. parse pid \<noteq> None"
  shows "\<exists>sim. setup_simulation ops parse ex rpc slot ata toml dir wallet wsol_mint mints cfg = Ok sim"
proof -
  have "traverse (\<lambda>_. new_simulator ops parse ex so_dir wsol_ata fc slot) xs \<noteq> Panic \<and>
      (\<forall>e. traverse (\<lambda>_. new_simulator ops parse ex so_dir wsol_ata fc slot) xs \<noteq> Err e)"
    for so_dir wsol_ata fc slot and xs :: "nat list"
  proof (induction xs)
    case (Cons x xs)
    then show ?case using new_simulator_total [where parse = parse and ops = ops and ex = ex and so_dir = so_dir
        and wsol_ata = wsol_ata and fc = fc and slot = slot, OF assms]
      by (auto simp: outcome_simps)
  qed simp
  then have "\<exists>pool. new_pool ops parse ex n so_dir wsol_ata fc slot = Ok pool"
    for n so_dir wsol_ata fc slot unfolding new_pool_def
    by (metis bind_outcome.simps(1) outcome.exhaust)
  then show ?thesis by (auto simp: setup_simulation_def Let_def outcome_simps)
qed


text \<open>A world in which every file reads the same, every key is valid and no region answers.\<close>

definition sample_world :: "(bytes, unit, disk_text, pubkey \<Rightarrow> account option, unit) world" where
  "sample_world =
     \<lparr>wo_keys = \<lparr>ks_read_to_string = (\<lambda>_. Some ''M''), ks_json_bytes = (\<lambda>_. Some [9]), ks_from_bytes = Some\<rparr>,
      wo_pubkey = (\<lambda>k. k), wo_toml = (\<lambda>_. Some sample_config), wo_serde = plain_serde, wo_fs = [],
      wo_parse = sdk_parse sample_sdk, wo_rpc = sample_rpc, wo_slot = Some 3, wo_blockhash = Some [],
      wo_ata = (\<lambda>w m. m @ w), wo_wsol_mint = [5], wo_region_reachable = (\<lambda>_. False),
      wo_auth = (\<lambda>_ _. Err ChallengeFailed), wo_pool_toml = (\<lambda>_. None), wo_dex_dir = (\<lambda>_. None),
      wo_file_exists = (\<lambda>_. False), wo_vm = sample_vm\<rparr>"


subsection \<open>The main loop\<close>



end
