(* ===== verification/MetricsText.thy ===== *)
theory MetricsText
  imports PipelineLaws
begin

text \<open>
  The text that the reporter of \<open>src/src/metrics.rs\<close> prints for a window, and what its figures can
  be.  The text of \<open>ttl_secs\<close>, a floating-point number, is an argument.
\<close>

definition show_i64 :: "i64 \<Rightarrow> string" where
  "show_i64 d = (if sint d < 0 then ''-'' @ show_nat (nat (- sint d)) else show_nat (nat (sint d)))"

definition report_text :: "string \<Rightarrow> report \<Rightarrow> string" where
  "report_text ttl_secs r =
     ''[30s] metis_sent='' @ show_word (rp_sent r) @ '' routes='' @ show_word (rp_routes r) @
     '' quoted_profitable='' @ show_word (rp_profit r) @ ''\<newline>  '' @
     ''TEMPLATE  : route_hit='' @ show_word (rp_rt_hit r) @ ''  hop_all_hit='' @ show_word (rp_ht_all r) @
     ''  hop_miss='' @ show_word (rp_ht_miss r) @ ''  routes='' @ show_nat (rp_n_routes r) @
     ''(patchable='' @ show_nat (rp_n_patch r) @ '')  hops='' @ show_nat (rp_n_hops r) @ ''\<newline>  '' @
     ''IX-SOURCE : from_ram='' @ show_word (rp_from_ram r) @ ''  from_metis='' @ show_word (rp_from_metis r) @
     ''  ram_pct='' @ show_word (rp_ram_pct r) @ ''%\<newline>  '' @
     ''FUNNEL    : profitable='' @ show_word (rp_profit r) @ ''  drop_same_pool='' @ show_word (rp_drop_pool r) @
     ''  drop_multi_hop='' @ show_word (rp_drop_hop r) @ ''  drop_merge='' @ show_word (rp_drop_merge r) @
     ''  drop_no_serve='' @ show_word (rp_drop_no_srv r) @ ''  -> swap_ix_ok='' @ show_word (rp_sw_ok r) @
     ''\<newline>  '' @
     ''PRE-QUEUE : swap_ix_ok='' @ show_word (rp_sw_ok r) @ ''  swap_ix_fail='' @ show_word (rp_swap_fail r) @
     '' [timeout='' @ show_word (rp_sf_to r) @ '' http='' @ show_word (rp_sf_http r) @ '' net='' @
     show_word (rp_sf_net r) @ '' parse='' @ show_word (rp_sf_parse r) @ ''] -> queue_in='' @
     show_word (rp_q_in r) @ ''  (depth_now='' @ show_i64 (rp_depth r) @ '')\<newline>  '' @
     ''IN-QUEUE  : stale='' @ show_word (rp_stale r) @ '' (waited >'' @ ttl_secs @ ''s)\<newline>  '' @
     ''TX-BUILD  : build_fail='' @ show_word (rp_build r) @ ''  too_large='' @ show_word (rp_too_big r) @
     ''  too_many_locks='' @ show_word (rp_too_locks r) @ ''  calc_ok='' @ show_word (rp_calc r) @ ''\<newline>  '' @
     ''JITO      : sent='' @ show_word (rp_jito r) @ ''  send_fail='' @ show_word (rp_jfail r) @
     ''  waited_for_slot='' @ show_word (rp_requeued r) @ ''\<newline>  '' @
     ''SWAP-IX   : avg_metis='' @ show_word (rp_avg_ms r) @ ''ms''"

text \<open>One window of the reporter: what it prints, and the counters it leaves.\<close>

definition reporter_window :: "string \<Rightarrow> store \<Rightarrow> metrics \<Rightarrow> metrics \<times> string" where
  "reporter_window ttl_secs st m = (case report_window st m of (m, r) \<Rightarrow> (m, report_text ttl_secs r))"

subsection \<open>What the figures can be\<close>

lemma share_bound:
  fixes a b c :: u64
  assumes "c = a + b" and "100 * (unat a + unat b) < 2 ^ 64" and "0 < c"
  shows "unat (a * 100 div c) \<le> 100"
proof -
  have c: "unat c = unat a + unat b"
    using assms(1,2) by (simp add: unat_word_ariths)
  have "unat (a * 100) = unat a * 100"
    using assms(2) by (simp add: unat_word_ariths)
  moreover have "unat a * 100 div (unat a + unat b) \<le> 100"
    by (metis div_le_mono div_mult_self_is_m div_by_0 le_add1 le0 mult.commute mult_le_mono2 not_gr_zero)
  ultimately show ?thesis by (simp add: unat_div c)
qed

text \<open>In every window the reporter of a running bot prints a consistent funnel: the requests for
  instructions that failed are the sum of their four causes, every instruction that was
  served or fetched was queued, the share served from memory is at most 100 per cent (while
  the counters are far from overflow), and the depth shown is the length of the queue.\<close>

theorem report_figures:
  assumes "reachable enc dec tc env (initial n (start_bot rate grpc_rate tips h st)) s"
    and "r = snd (report_window (ps_store (bt_pipe (mc_bot s))) (ps_metrics (bt_pipe (mc_bot s))))"
    and "100 * (unat (rp_from_ram r) + unat (rp_from_metis r)) < 2 ^ 64"
  shows "rp_swap_fail r = rp_sf_to r + rp_sf_http r + rp_sf_net r + rp_sf_parse r \<and>
    rp_sw_ok r = rp_from_ram r + rp_from_metis r \<and> rp_q_in r = rp_sw_ok r \<and>
    unat (rp_ram_pct r) \<le> 100 \<and>
    rp_depth r = of_nat (length (ps_lifo (bt_pipe (mc_bot s))))"
proof -
  let ?m = "ps_metrics (bt_pipe (mc_bot s))"
  note inv = started [OF assms(1)]
  have ok: "counters_ok ?m" and depth: "queue_depth ?m = of_nat (length (ps_lifo (bt_pipe (mc_bot s))))"
    using queue_invD(2,4) [OF inv] by simp_all
  have "unat (ix_from_ram ?m * 100 div swap_ix_ok ?m) \<le> 100" if "0 < swap_ix_ok ?m"
    using ok assms(2,3) that by (intro share_bound) (simp_all add: counters_ok_def report_window_def)
  then show ?thesis
    using ok depth by (simp add: assms(2) report_window_def counters_ok_def)
qed

theorem report_figures_witness:
  "\<exists>s r. reachable plain_enc no_dec serving_config sample_env sample_start s \<and>
     r = snd (report_window (ps_store (bt_pipe (mc_bot s))) (ps_metrics (bt_pipe (mc_bot s)))) \<and>
     rp_depth r = 0 \<and> unat (rp_ram_pct r) \<le> 100"
proof -
  let ?r = "snd (report_window (ps_store (bt_pipe (mc_bot sample_start))) (ps_metrics (bt_pipe (mc_bot sample_start))))"
  have r: "reachable plain_enc no_dec serving_config sample_env sample_start sample_start"
    by (rule reach_init)
  have "ps_metrics (bt_pipe (mc_bot sample_start)) = new_metrics" "ps_lifo (bt_pipe (mc_bot sample_start)) = []"
    by (simp_all add: sample_start_def initial_def start_bot_def)
  moreover from this have "100 * (unat (rp_from_ram ?r) + unat (rp_from_metis ?r)) < 2 ^ 64"
    by (simp add: report_window_def new_metrics_def)
  ultimately show ?thesis
    using report_figures [OF r [unfolded sample_start_def] refl, folded sample_start_def] r by auto
qed

end
