(* ===== verification/Spec2Isabelle.thy ===== *)
theory Spec2Isabelle
  imports Boot MetricsText
begin

text \<open>
  A model of the arbitrage bot under \<open>src/src\<close>, a Rust program that looks for profitable round
  trips between tokens on Solana, assembles them into transactions and submits them as bundles to
  the regions of a block engine.

  \<^bold>\<open>The program and its parts.\<close>  \<open>main\<close> reads the configuration, loads what earlier runs left on
  disk, starts the background tasks and the workers, and then scans for ever.  A scan goes over
  all (token, amount, mode) triples.  For each it asks the routing engine for two quotes; a
  profitable pair is answered from memory if its route (tier 1) or its two hops (tier 2) are known,
  and otherwise the engine is asked for instructions (tier 3), whose answer arrives later and is
  remembered.  Either way an opportunity enters one shared stack, together with a permit of a
  semaphore.  A worker takes a permit, takes an opportunity, drops it if it is too old, takes a
  slot of a rate limiter, builds and signs a transaction and sends it to every region at once.

  \<^bold>\<open>Theories and the code they model.\<close>
  \<^item> \<open>Prelude\<close>: machine words, outcomes of fallible calls (value, error, panic), byte images.
  \<^item> \<open>RustStrings\<close>, \<open>HashMaps\<close>, \<open>Json\<close>: what the sources use of the standard library's strings
    and hash maps, and of JSON values.
  \<^item> \<open>RouteSig\<close>, \<open>HopKeys\<close>, \<open>AmountPatch\<close>, \<open>TemplateStore\<close>, \<open>StoreLaws\<close>, \<open>TemplateDisk\<close>:
    \<open>template_cache.rs\<close>.  Signatures of routes, identities of hops, rewriting of the amounts in
    stored instructions, the store of routes and hops with its bounded segments, and its files.
  \<^item> \<open>MetisClient\<close>: \<open>metis.rs\<close>, the client of the routing engine and the merging of two quotes.
  \<^item> \<open>BotMetrics\<close>, \<open>MetricsText\<close>, \<open>TokenReports\<close>: \<open>metrics.rs\<close> and \<open>token_metrics.rs\<close>.
  \<^item> \<open>BotConfig\<close>: \<open>config.rs\<close>, \<open>tokens.rs\<close>, \<open>program_registry.rs\<close>.
  \<^item> \<open>RateLimiter\<close>: \<open>rate_limiter.rs\<close>.
  \<^item> \<open>Caches\<close>: \<open>alt_cache.rs\<close>, \<open>account_cache.rs\<close> and \<open>blockhash_cache.rs\<close>; \<open>Subscription\<close>: the
    task of \<open>account_cache.rs\<close> that keeps the account stream connected; \<open>AltLoader\<close>: the binary
    \<open>bin/alt_loader.rs\<close>.
  \<^item> \<open>Transactions\<close>: \<open>transaction.rs\<close>.
  \<^item> \<open>JitoSenders\<close>: \<open>jito.rs\<close> and \<open>jito_grpc.rs\<close>.
  \<^item> \<open>Scan\<close>, \<open>ScanLaws\<close>, \<open>ScanCycle\<close>: the scanner of \<open>arbitrage.rs\<close>, from one quote to a whole
    cycle of \<open>scan_all_tokens\<close>.
  \<^item> \<open>Workers\<close>, \<open>Pipeline\<close>, \<open>PipelineLaws\<close>: the workers of \<open>arbitrage.rs\<close>, and scanner,
    engine, workers and reporter interleaved as one step relation.
  \<^item> \<open>Desk\<close>: the abstract specification of that step relation, a stack of tickets and clerks who
    take the newest one atomically, and the proof that the bot implements it.
  \<^item> \<open>Simulation\<close>: \<open>litesvm_sim.rs\<close>.  \<open>DexAccounts\<close>: \<open>dex_accounts.rs\<close>.  \<open>Wallet\<close>: \<open>wallet.rs\<close>.
  \<^item> \<open>Startup\<close>: \<open>main.rs\<close>, which hands the parts their configuration; \<open>Restarts\<close>: many processes
    one after another, joined by the files; \<open>Boot\<close>: \<open>main\<close> as a whole, its errors and its loop.

  Definitions keep the names of the Rust items.  A struct is a record, an enum a datatype, an
  operation a function from the old state to the new one; Rust integers keep their width.  Types
  that the code handles only through a third-party crate are strings, byte lists or parameters.

  \<^bold>\<open>What is proved.\<close>  The interfaces between the parts are locales, interpreted on the model's own
  definitions: \<open>hash_map\<close>, \<open>window_limiter\<close>, \<open>route_cache\<close>, \<open>read_through\<close>, \<open>bundle_sender\<close>,
  \<open>kept_invariant\<close> and \<open>simulation\<close>, which extends it.
  The main groups of theorems are these.
  \<^item> The pipeline, by rule induction on the reachable states: permits and queued items agree, every
    item taken from the queue is accounted for, nothing above the size or lock limit is sent, an
    idle worker finds work when there is some, a refused item returns to the queue.  Every run is
    a run of the abstract desk.
  \<^item> All lives: over any number of crashes and restarts, with any writes failing, the safety
    properties hold, the file of routes is never torn, a flush followed by a restart loses no
    route, and the store grows by at most one segment per restart.
  \<^item> The main loop: it never stops, and each cycle of it is a run of the step relation, so that all
    of the above holds after any number of cycles.  Start-up fails for the listed reasons only.
  \<^item> The store: what was inserted is served, what was used recently survives, the segments stay
    within their capacity, everything served was once stored, hop counters count.
  \<^item> Serving: a served instruction differs from the stored one in its two amounts and nothing
    else; offsets are found exactly when they are determined.
  \<^item> The limiter: never more than the limit in any window of one second, and it decides as a
    limiter would that forgot nothing.
  \<^item> The scanner: a pair passes exactly when it is profitable, every pair ends in one of the
    listed outcomes, a route learned once is served from memory at the next scan.
  \<^item> Files: what is flushed is loaded again, a failed flush leaves the old file.
  \<^item> Senders: a bundle counts as sent exactly when some region accepted it; tokens are refreshed
    before they expire, a region once authenticated stays so.
  \<^item> Transactions, caches, simulation, reports and configuration: functional correctness of each
    operation, on its error branches too.

  \<^bold>\<open>Conventions and assumptions.\<close>
  \<^item> The release profile has overflow checks off and aborts on panic: arithmetic wraps, a panic ends
    the process and so no lock is ever poisoned.
  \<^item> Every operation under a lock is one step.  \<open>get_route\<close> is split where it changes from the read
    lock to the write lock.  The worker is split at its awaits.  Pushing to the queue (push, then
    add a permit), putting an item back and one window of the reporter are one step each.
  \<^item> Clock readings are arguments.  An \<open>Instant\<close> is an integer, so subtracting from it never
    underflows.
  \<^item> Strings are lists of ASCII characters.
  \<^item> Loops are structural recursions, folds over lists, or functions with a proved measure.  The
    loop over amounts may not end: it has fuel, and the laws say for which steps enough fuel
    exists (one more than the number of amounts).
  \<^item> Parameters stand for base64, base58, JSON and TOML readers, HTTP and gRPC calls, compilation
    and signing of messages, address derivation and the virtual machine.  Where a theorem needs a
    law of one of them, such as that decoding inverts encoding, it is a premise of the theorem and
    its witness runs it on a concrete function.

  \<^bold>\<open>Not modelled.\<close>  \<open>build.rs\<close> and the protocol files, which generate the stubs the sources only
  call; the vendored \<open>litesvm\<close>; logging and the set-up of the runtime; the scheduling of timers (a
  tick is a step that may happen at any time); opening TLS channels; the conversion of
  floating-point settings, whose results are arguments.  The window of the reporter is one
  step, while the code swaps the counters one by one, so a real window may split an event that
  bumps several counters between two windows.
\<close>

end
